theory Spec2Isabelle
  imports Main
begin

section \<open>JavaScript strings and arrays\<close>

text \<open>
  The reporter works on the grids of string cells that the spreadsheet service returns.
  A JavaScript string is modelled as a \<^typ>\<open>string\<close>; a \<^typ>\<open>char\<close> stands for the UTF-16
  code unit of the same value, so the model covers the strings whose code units are below
  256 (ASCII and Latin-1).  An array is a list, an index is an \<^typ>\<open>int\<close> (\<open>findIndex\<close>
  answers \<open>-1\<close>), and reading an array outside its range gives \<open>undefined\<close>, modelled as
  \<open>None\<close>.
\<close>

definition isWhiteSpace :: "char \<Rightarrow> bool" where
  \<comment> \<open>the code units below 256 that \<open>String.prototype.trim\<close> removes: TAB, LF, VT, FF, CR,
      SPACE and NO-BREAK SPACE\<close>
  "isWhiteSpace c = (of_char c \<in> {9, 10, 11, 12, 13, 32, 160 :: nat})"

definition trim :: "string \<Rightarrow> string" where
  "trim s = rev (dropWhile isWhiteSpace (rev (dropWhile isWhiteSpace s)))"

definition toLowerChar :: "char \<Rightarrow> char" where
  \<comment> \<open>\<open>A\<close>..\<open>Z\<close> and the Latin-1 capitals (all of \<open>0xC0\<close>..\<open>0xDE\<close> but the multiplication sign)\<close>
  "toLowerChar c =
     (let n = of_char c :: nat
      in if (65 \<le> n \<and> n \<le> 90) \<or> (192 \<le> n \<and> n \<le> 222 \<and> n \<noteq> 215)
         then char_of (n + 32) else c)"

definition toLowerCase :: "string \<Rightarrow> string" where
  "toLowerCase s = map toLowerChar s"

definition startsWith :: "string \<Rightarrow> string \<Rightarrow> bool" where
  "startsWith s p = (take (length p) s = p)"

fun includesStr :: "string \<Rightarrow> string \<Rightarrow> bool" where
  "includesStr [] p = (p = [])"
| "includesStr (c # cs) p = (startsWith (c # cs) p \<or> includesStr cs p)"

definition at :: "'a list \<Rightarrow> int \<Rightarrow> 'a option" where
  \<comment> \<open>\<open>xs[i]\<close>; \<open>None\<close> is \<open>undefined\<close>\<close>
  "at xs i = (if 0 \<le> i \<and> i < int (length xs) then Some (xs ! nat i) else None)"

definition orEmpty :: "string option \<Rightarrow> string" where
  \<comment> \<open>\<open>v || ''\<close> for a value that is a string or \<open>undefined\<close>\<close>
  "orEmpty v = (case v of None \<Rightarrow> [] | Some s \<Rightarrow> s)"

fun findIndexFrom :: "('a \<Rightarrow> bool) \<Rightarrow> 'a list \<Rightarrow> int \<Rightarrow> int" where
  "findIndexFrom P [] i = - 1"
| "findIndexFrom P (x # xs) i = (if P x then i else findIndexFrom P xs (i + 1))"

definition findIndex :: "('a \<Rightarrow> bool) \<Rightarrow> 'a list \<Rightarrow> int" where
  "findIndex P xs = findIndexFrom P xs 0"

section \<open>The regular expressions of the iteration label\<close>

definition isDigit :: "char \<Rightarrow> bool" where
  "isDigit c = (48 \<le> (of_char c :: nat) \<and> (of_char c :: nat) \<le> 57)"

definition isSep :: "char \<Rightarrow> bool" where
  \<comment> \<open>the class \<open>[- ]\<close>\<close>
  "isSep c = (c = CHR ''-'' \<or> c = CHR '' '')"

definition itrAt :: "string \<Rightarrow> bool" where
  \<comment> \<open>\<open>itr\<close> under the flag \<open>i\<close>, matched at the start of the string\<close>
  "itrAt s =
     (case s of
        a # b # c # _ \<Rightarrow>
          (a = CHR ''i'' \<or> a = CHR ''I'') \<and> (b = CHR ''t'' \<or> b = CHR ''T'') \<and>
          (c = CHR ''r'' \<or> c = CHR ''R'')
      | _ \<Rightarrow> False)"

definition afterSep :: "string \<Rightarrow> string" where
  \<comment> \<open>the rest of the string once \<open>[- ]?\<close> has taken what it can\<close>
  "afterSep s = (case s of [] \<Rightarrow> [] | c # cs \<Rightarrow> if isSep c then cs else c # cs)"

definition itrTokenAt :: "string \<Rightarrow> string option" where
  \<comment> \<open>\<open>(itr[- ]?\d+)\<close> matched at the start of the string\<close>
  "itrTokenAt s =
     (if itrAt s then
        (let rest = drop 3 s; digits = takeWhile isDigit (afterSep rest)
         in if digits = [] then None
            else Some (take 3 s @ take (length rest - length (afterSep rest)) rest @ digits))
      else None)"

fun matchItr :: "string \<Rightarrow> string option" where
  \<comment> \<open>\<open>s.match(/(itr[- ]?\d+)/i)\<close>: the leftmost match, \<open>None\<close> for \<open>null\<close>\<close>
  "matchItr [] = None"
| "matchItr (c # cs) =
     (case itrTokenAt (c # cs) of Some m \<Rightarrow> Some m | None \<Rightarrow> matchItr cs)"

fun replaceItr :: "string \<Rightarrow> string" where
  \<comment> \<open>\<open>s.replace(/itr[- ]?/i, '')\<close>: the leftmost match is removed, wherever it is\<close>
  "replaceItr [] = []"
| "replaceItr (c # cs) =
     (if itrAt (c # cs) then afterSep (drop 3 (c # cs)) else c # replaceItr cs)"

section \<open>fetchAllSheetsData\<close>

record data_row =
  tester :: string
  jiraTicket :: string
  iteration :: string
  overallStatus :: string
  defect :: string
  comments :: string

record sheetSummary =
  name :: string
  rowCount :: int
  headerFound :: bool

record headerCols =
  testerIdx :: int
  statusIdx :: int
  defectIdx :: int
  commentsIdx :: int
  iterationIdx :: int

record reporter =
  allData :: "data_row list"
  sheetSummaries :: "sheetSummary list"
  indexSheetRows :: "string list list option"

definition labelled :: "string \<Rightarrow> string \<Rightarrow> bool" where
  \<comment> \<open>\<open>cell && cell.toLowerCase().includes(label)\<close>\<close>
  "labelled label cell = (cell \<noteq> [] \<and> includesStr (toLowerCase cell) label)"

definition isHeaderRow :: "string list \<Rightarrow> bool" where
  "isHeaderRow row = list_ex (labelled ''tester'') row"

definition locateColumns :: "string list \<Rightarrow> headerCols" where
  "locateColumns header =
     \<lparr>testerIdx = findIndex (labelled ''tester'') header,
      statusIdx = findIndex (labelled ''overall status'') header,
      defectIdx = findIndex (labelled ''defect'') header,
      commentsIdx = findIndex (labelled ''comment'') header,
      iterationIdx = findIndex (labelled ''iteration'') header\<rparr>"

definition rawIteration :: "string \<Rightarrow> headerCols \<Rightarrow> string list \<Rightarrow> string" where
  \<comment> \<open>\<open>iteration\<close> before the prefix is removed: the cell of the iteration column when the
      header has one, the token of the sheet name otherwise\<close>
  "rawIteration sheetName cols row =
     (if iterationIdx cols \<noteq> - 1 then orEmpty (at row (iterationIdx cols))
      else (case matchItr sheetName of Some m \<Rightarrow> m | None \<Rightarrow> []))"

definition resolveIteration :: "string \<Rightarrow> headerCols \<Rightarrow> string list \<Rightarrow> string" where
  "resolveIteration sheetName cols row = trim (replaceItr (rawIteration sheetName cols row))"

definition rowRecord :: "string \<Rightarrow> headerCols \<Rightarrow> string list \<Rightarrow> data_row option" where
  \<comment> \<open>the body of the loop over the data rows; \<open>None\<close> is its \<open>continue\<close>\<close>
  "rowRecord sheetName cols row =
     (let testerCell = orEmpty (at row (testerIdx cols));
          rawStatus = orEmpty (at row (statusIdx cols));
          status = (if trim rawStatus \<noteq> [] then trim rawStatus else ''Not Started'')
      in if trim testerCell = [] then None
         else Some
           \<lparr>tester = testerCell,
            jiraTicket = sheetName,
            iteration = resolveIteration sheetName cols row,
            overallStatus = status,
            defect = (if defectIdx cols \<noteq> - 1 then orEmpty (at row (defectIdx cols)) else []),
            comments =
              (if commentsIdx cols \<noteq> - 1 then orEmpty (at row (commentsIdx cols)) else [])\<rparr>)"

function processRows ::
  "string \<Rightarrow> headerCols \<Rightarrow> string list list \<Rightarrow> nat \<Rightarrow> data_row list \<Rightarrow> data_row list" where
  "processRows sheetName cols rows i acc =
     (if i < length rows then
        processRows sheetName cols rows (i + 1)
          (case rowRecord sheetName cols (rows ! i) of None \<Rightarrow> acc | Some r \<Rightarrow> acc @ [r])
      else acc)"
  by pat_completeness auto
termination
  by (relation "measure (\<lambda>(sheetName, cols, rows, i, acc). length rows - i)") auto

declare processRows.simps [simp del]

definition processValueRange :: "reporter \<Rightarrow> string \<times> string list list option \<Rightarrow> reporter" where
  \<comment> \<open>the callback of \<open>valueRanges.forEach\<close>; the pair is the sheet's title and its
      \<open>valueRange.values\<close>, absent for a sheet without cells\<close>
  "processValueRange st vr =
     (let sheetName = fst vr; values = snd vr
      in if toLowerCase sheetName = ''index'' then
           (case values of
              None \<Rightarrow> st
            | Some rows \<Rightarrow> if length rows > 1 then st\<lparr>indexSheetRows := Some rows\<rparr> else st)
         else
           (case values of
              None \<Rightarrow>
                st\<lparr>sheetSummaries := sheetSummaries st @
                     [\<lparr>name = sheetName, rowCount = 0, headerFound = False\<rparr>]\<rparr>
            | Some rows \<Rightarrow>
                if length rows = 0 then
                  st\<lparr>sheetSummaries := sheetSummaries st @
                       [\<lparr>name = sheetName, rowCount = 0, headerFound = False\<rparr>]\<rparr>
                else
                  (let headerRowIdx = findIndex isHeaderRow rows
                   in if headerRowIdx = - 1 then
                        st\<lparr>sheetSummaries := sheetSummaries st @
                             [\<lparr>name = sheetName, rowCount = 0, headerFound = False\<rparr>]\<rparr>
                      else
                        (let cols = locateColumns (rows ! nat headerRowIdx)
                         in st\<lparr>sheetSummaries := sheetSummaries st @
                                 [\<lparr>name = sheetName,
                                   rowCount = int (length rows) - headerRowIdx - 1,
                                   headerFound = True\<rparr>],
                               allData :=
                                 processRows sheetName cols rows (nat (headerRowIdx + 1))
                                   (allData st)\<rparr>))))"

definition fetchAllSheetsData :: "(string \<times> string list list option) list \<Rightarrow> reporter" where
  "fetchAllSheetsData valueRanges =
     foldl processValueRange
       \<lparr>allData = [], sheetSummaries = [], indexSheetRows = None\<rparr> valueRanges"

section \<open>generateHTMLReport: the status list\<close>

text \<open>
  A \<open>Set\<close> keeps its members once each, in the order of their first insertion; it is the list
  of its members in that order.  Its members here are strings, which \<open>has\<close> compares by value.
\<close>

definition setAdd :: "'a list \<Rightarrow> 'a \<Rightarrow> 'a list" where
  "setAdd S x = (if x \<in> set S then S else S @ [x])"

definition newSet :: "'a list \<Rightarrow> 'a list" where
  \<comment> \<open>\<open>new Set(xs)\<close>\<close>
  "newSet xs = foldl setAdd [] xs"

definition statusOrder :: "string list" where
  "statusOrder = [''Passed'', ''Failed'', ''Blocked'', ''In Progress'', ''Not Started'']"

definition pushMissing :: "string list \<Rightarrow> string \<Rightarrow> string list" where
  \<comment> \<open>\<open>if (!statusList.includes(s)) statusList.push(s)\<close>\<close>
  "pushMissing statusList s = (if s \<in> set statusList then statusList else statusList @ [s])"

definition statusList :: "data_row list \<Rightarrow> string list" where
  "statusList records =
     (let statusSet = newSet (filter (\<lambda>s. s \<noteq> []) (map overallStatus records))
      in foldl pushMissing (filter (\<lambda>s. s \<in> set statusSet) statusOrder) statusSet)"

fun firstSeen :: "'a list \<Rightarrow> 'a list" where
  \<comment> \<open>the distinct elements of a list in the order of their first occurrence\<close>
  "firstSeen [] = []"
| "firstSeen (x # xs) = x # firstSeen (removeAll x xs)"

section \<open>generateHTMLReport: grouping by tester\<close>

text \<open>
  \<open>grouped\<close>, the \<open>statusCounts\<close> of a group and the \<open>statusCountsMap\<close> of the index are plain
  objects used as dictionaries.  Reading a key that the object does not own falls through
  to \<open>Object.prototype\<close>, so the keys below read as a function (an object for \<open>__proto__\<close>)
  and not as \<open>undefined\<close>.  An object is the map of the properties it owns; the inherited
  keys are a case of each read.
\<close>

definition objectPrototypeKeys :: "string list" where
  "objectPrototypeKeys =
     [''constructor'', ''__defineGetter__'', ''__defineSetter__'', ''hasOwnProperty'',
      ''__lookupGetter__'', ''__lookupSetter__'', ''isPrototypeOf'', ''propertyIsEnumerable'',
      ''toString'', ''valueOf'', ''__proto__'', ''toLocaleString'']"

datatype jsCount = Count nat | NotANumber

datatype jsError = TypeError

definition increment :: "(string \<rightharpoonup> jsCount) \<Rightarrow> string \<Rightarrow> (string \<rightharpoonup> jsCount)" where
  \<comment> \<open>\<open>obj[k] = (obj[k] || 0) + 1\<close>.  An inherited function is truthy and \<open>+ 1\<close> appends to
      its text, which \<open>NotANumber\<close> stands for; assigning such a string to \<open>__proto__\<close> stores
      nothing.\<close>
  "increment obj k =
     (case obj k of
        Some (Count n) \<Rightarrow> obj(k \<mapsto> Count (n + 1))
      | Some NotANumber \<Rightarrow> obj(k \<mapsto> NotANumber)
      | None \<Rightarrow>
          if k \<in> set objectPrototypeKeys
          then (if k = ''__proto__'' then obj else obj(k \<mapsto> NotANumber))
          else obj(k \<mapsto> Count 1))"

definition countOr0 :: "(string \<rightharpoonup> jsCount) \<Rightarrow> string \<Rightarrow> jsCount" where
  \<comment> \<open>\<open>obj[k] || 0\<close>\<close>
  "countOr0 obj k =
     (case obj k of
        Some v \<Rightarrow> v
      | None \<Rightarrow> if k \<in> set objectPrototypeKeys then NotANumber else Count 0)"

text \<open>
  \<open>ticketIterations\<close> is a \<open>Map\<close> from a ticket to the \<open>Set\<close> of its iteration labels: the list
  of its entries in the order of their insertion, with one entry for a key.
\<close>

fun addToEntry ::
  "string \<Rightarrow> string \<Rightarrow> (string \<times> string list) list \<Rightarrow> (string \<times> string list) list" where
  \<comment> \<open>\<open>m.get(ticket).add(x)\<close>\<close>
  "addToEntry ticket x [] = []"
| "addToEntry ticket x ((t, s) # m) =
     (if t = ticket then (t, setAdd s x) # m else (t, s) # addToEntry ticket x m)"

definition trackIteration ::
  "(string \<times> string list) list \<Rightarrow> data_row \<Rightarrow> (string \<times> string list) list" where
  "trackIteration ticketIterations row =
     (let ticket = jiraTicket row;
          m = (if ticket \<in> fst ` set ticketIterations then ticketIterations
               else ticketIterations @ [(ticket, [])])
      in addToEntry ticket (if iteration row \<noteq> [] then iteration row else ''1'') m)"

record testerGroup =
  groupTester :: string
  groupRows :: "data_row list"
  groupStatusCounts :: "string \<rightharpoonup> jsCount"
  ticketIterations :: "(string \<times> string list) list"

definition addRow :: "testerGroup \<Rightarrow> data_row \<Rightarrow> testerGroup" where
  "addRow g row =
     g\<lparr>groupRows := groupRows g @ [row],
       groupStatusCounts := increment (groupStatusCounts g) (overallStatus row),
       ticketIterations := trackIteration (ticketIterations g) row\<rparr>"

definition groupRow ::
  "(string \<rightharpoonup> testerGroup) \<Rightarrow> data_row \<Rightarrow> jsError + (string \<rightharpoonup> testerGroup)" where
  \<comment> \<open>the callback of \<open>allData.forEach\<close>.  For an inherited key \<open>grouped[key]\<close> is truthy, no
      group is made, \<open>grouped[key].rows\<close> is \<open>undefined\<close> and its \<open>push\<close> throws.\<close>
  "groupRow grouped row =
     (let key = trim (tester row)
      in if key = [] then Inr grouped
         else (case grouped key of
                 Some g \<Rightarrow> Inr (grouped(key \<mapsto> addRow g row))
               | None \<Rightarrow>
                   if key \<in> set objectPrototypeKeys then Inl TypeError
                   else Inr (grouped(key \<mapsto>
                          addRow \<lparr>groupTester = key, groupRows = [], groupStatusCounts = Map.empty,
                                  ticketIterations = []\<rparr> row))))"

fun groupData ::
  "(string \<rightharpoonup> testerGroup) \<Rightarrow> data_row list \<Rightarrow> jsError + (string \<rightharpoonup> testerGroup)" where
  "groupData grouped [] = Inr grouped"
| "groupData grouped (row # rest) =
     (case groupRow grouped row of
        Inl e \<Rightarrow> Inl e
      | Inr grouped' \<Rightarrow> groupData grouped' rest)"

record testerData =
  testerName :: string
  statusCountsOf :: "jsCount list"
  total :: nat
  uniqueTicketCount :: nat
  ticketDetails :: "(string \<times> nat) list"

definition testerDataOf :: "string list \<Rightarrow> string \<Rightarrow> testerGroup \<Rightarrow> testerData" where
  \<comment> \<open>the entry of \<open>data\<close> for a tester name and its group\<close>
  "testerDataOf statuses tname g =
     \<lparr>testerName = tname,
      statusCountsOf = map (countOr0 (groupStatusCounts g)) statuses,
      total = length (groupRows g),
      uniqueTicketCount = length (ticketIterations g),
      ticketDetails = map (\<lambda>(ticket, iterations). (ticket, length iterations)) (ticketIterations g)\<rparr>"

section \<open>generateHTMLReport: the global status counts\<close>

definition statusCounts :: "data_row list \<Rightarrow> nat list" where
  \<comment> \<open>\<open>statusList.map(status => allData.filter(row => row.overallStatus === status).length)\<close>\<close>
  "statusCounts records =
     map (\<lambda>s. length (filter (\<lambda>row. overallStatus row = s) records)) (statusList records)"

definition statusTotal :: "data_row list \<Rightarrow> nat" where
  \<comment> \<open>\<open>statusCounts.reduce((a, b) => a + b, 0)\<close>, the divisor of the percentages\<close>
  "statusTotal records = foldl (+) 0 (statusCounts records)"

section \<open>generateHTMLReport: the index of stories\<close>

record indexCols =
  testScenarioIdx :: int
  testExecutionIdx :: int
  testStoryIdx :: int
  descIdx :: int
  indexStatusIdx :: int

definition indexHeaderCell :: "indexCols \<Rightarrow> string \<Rightarrow> int \<Rightarrow> indexCols" where
  \<comment> \<open>the callback of \<open>header.forEach\<close>: five tests in a row, each assigning on a match\<close>
  "indexHeaderCell cols cell i =
     (let lc = toLowerCase cell;
          c1 = (if includesStr lc ''test scenario'' then cols\<lparr>testScenarioIdx := i\<rparr> else cols);
          c2 = (if includesStr lc ''test execution'' then c1\<lparr>testExecutionIdx := i\<rparr> else c1);
          c3 = (if includesStr lc ''test story'' then c2\<lparr>testStoryIdx := i\<rparr> else c2);
          c4 = (if includesStr lc ''description'' then c3\<lparr>descIdx := i\<rparr> else c3)
      in if includesStr lc ''status'' then c4\<lparr>indexStatusIdx := i\<rparr> else c4)"

fun indexHeaderFrom :: "indexCols \<Rightarrow> string list \<Rightarrow> int \<Rightarrow> indexCols" where
  "indexHeaderFrom cols [] i = cols"
| "indexHeaderFrom cols (cell # rest) i =
     indexHeaderFrom (indexHeaderCell cols cell i) rest (i + 1)"

definition locateIndexColumns :: "string list \<Rightarrow> indexCols" where
  "locateIndexColumns header =
     indexHeaderFrom
       \<lparr>testScenarioIdx = 0, testExecutionIdx = 1, testStoryIdx = 3, descIdx = 2,
        indexStatusIdx = 4\<rparr> header 0"

definition bodyRows :: "string list list \<Rightarrow> string list list" where
  \<comment> \<open>\<open>indexSheetRows.slice(1).filter(row => row.some(cell => cell))\<close>\<close>
  "bodyRows indexRows = filter (list_ex (\<lambda>cell. cell \<noteq> [])) (drop 1 indexRows)"

definition countStatus :: "int \<Rightarrow> (string \<rightharpoonup> jsCount) \<Rightarrow> string list \<Rightarrow> (string \<rightharpoonup> jsCount)" where
  \<comment> \<open>the callback of \<open>bodyRows.forEach\<close>, on \<open>statusCountsMap\<close>\<close>
  "countStatus statusIdx' statusCountsMap row =
     (let status = orEmpty (at row statusIdx')
      in if trim status \<noteq> [] then increment statusCountsMap status else statusCountsMap)"

record indexEntry =
  testScenario :: string
  testExecution :: string
  testStory :: string
  description :: string
  status :: string

definition indexEntryOf :: "indexCols \<Rightarrow> string list \<Rightarrow> indexEntry" where
  \<comment> \<open>the cells that a body row shows in the table of stories\<close>
  "indexEntryOf cols row =
     \<lparr>testScenario = orEmpty (at row (testScenarioIdx cols)),
      testExecution = orEmpty (at row (testExecutionIdx cols)),
      testStory = orEmpty (at row (testStoryIdx cols)),
      description = orEmpty (at row (descIdx cols)),
      status = orEmpty (at row (indexStatusIdx cols))\<rparr>"

record indexStories =
  indexColumns :: indexCols
  indexEntries :: "indexEntry list"
  statusCountsMap :: "string \<rightharpoonup> jsCount"

definition indexStoriesOf :: "string list list option \<Rightarrow> indexStories option" where
  \<comment> \<open>the block under \<open>if (this.indexSheetRows?.length > 1)\<close>; \<open>None\<close> when it is skipped\<close>
  "indexStoriesOf indexRows =
     (case indexRows of
        None \<Rightarrow> None
      | Some rs \<Rightarrow>
          if length rs > 1 then
            (let cols = locateIndexColumns (rs ! 0)
             in Some \<lparr>indexColumns = cols,
                      indexEntries = map (indexEntryOf cols) (bodyRows rs),
                      statusCountsMap =
                        foldl (countStatus (indexStatusIdx cols)) Map.empty (bodyRows rs)\<rparr>)
          else None)"

section \<open>What a sheet contributes\<close>

text \<open>
  Names for the parts of a sheet that the statements below speak about: whether the sheet is
  processed and has a header row, the columns located in that row, the rows strictly below
  it, and whether a row's tester cell is blank.
\<close>

definition testerBlank :: "headerCols \<Rightarrow> string list \<Rightarrow> bool" where
  "testerBlank cols row = (trim (orEmpty (at row (testerIdx cols))) = [])"

definition headerFoundIn :: "string \<times> string list list option \<Rightarrow> bool" where
  "headerFoundIn vr =
     (toLowerCase (fst vr) \<noteq> ''index'' \<and>
      (case snd vr of None \<Rightarrow> False | Some rows \<Rightarrow> findIndex isHeaderRow rows \<noteq> - 1))"

definition sheetCols :: "string \<times> string list list option \<Rightarrow> headerCols" where
  "sheetCols vr =
     (case snd vr of
        None \<Rightarrow> locateColumns []
      | Some rows \<Rightarrow> locateColumns (rows ! nat (findIndex isHeaderRow rows)))"

definition dataRows :: "string \<times> string list list option \<Rightarrow> string list list" where
  "dataRows vr =
     (if headerFoundIn vr
      then (case snd vr of
              None \<Rightarrow> []
            | Some rows \<Rightarrow> drop (nat (findIndex isHeaderRow rows + 1)) rows)
      else [])"

text \<open>
  The Records of a tester are those whose trimmed tester is the tester's key, and the
  iteration label that is counted for a Record is \<open>row.iteration || '1'\<close>.
\<close>

definition iterationLabel :: "data_row \<Rightarrow> string" where
  "iterationLabel row = (if iteration row \<noteq> [] then iteration row else ''1'')"

definition rowsFor :: "string \<Rightarrow> data_row list \<Rightarrow> data_row list" where
  "rowsFor key records = filter (\<lambda>r. trim (tester r) = key) records"

text \<open>
  The rule for the iteration label in the words of the specification: only a leading
  \<open>itr\<close> with its optional separator is stripped, and the surrounding whitespace.
\<close>

definition stripLeadingItr :: "string \<Rightarrow> string" where
  "stripLeadingItr s = trim (if itrAt s then afterSep (drop 3 s) else s)"

section \<open>Properties of fetchAllSheetsData\<close>

lemma findIndexFrom_none: "0 \<le> i \<Longrightarrow> (findIndexFrom P xs i = - 1) = (\<not> list_ex P xs)"
  by (induction xs arbitrary: i) auto

lemma findIndexFrom_range:
  "0 \<le> i \<Longrightarrow> findIndexFrom P xs i \<noteq> - 1 \<Longrightarrow>
     i \<le> findIndexFrom P xs i \<and> findIndexFrom P xs i < i + int (length xs)"
proof (induction xs arbitrary: i)
  case Nil
  then show ?case by simp
next
  case (Cons x xs)
  show ?case
  proof (cases "P x")
    case True
    then show ?thesis by simp
  next
    case False
    with Cons.prems have "findIndexFrom P xs (i + 1) \<noteq> - 1" by simp
    with Cons.IH [of "i + 1"] Cons.prems False show ?thesis by simp
  qed
qed

lemma findIndex_none: "(findIndex P xs = - 1) = (\<not> list_ex P xs)"
  by (simp add: findIndex_def findIndexFrom_none)

lemma findIndex_range:
  "findIndex P xs \<noteq> - 1 \<Longrightarrow> 0 \<le> findIndex P xs \<and> findIndex P xs < int (length xs)"
  using findIndexFrom_range [of 0 P xs] by (simp add: findIndex_def)

lemma processRows_map_filter:
  "processRows sheetName cols rows i acc =
     acc @ List.map_filter (rowRecord sheetName cols) (drop i rows)"
proof (induction sheetName cols rows i acc rule: processRows.induct)
  case (1 sheetName cols rows i acc)
  show ?case
  proof (cases "i < length rows")
    case True
    then have d: "drop i rows = rows ! i # drop (i + 1) rows"
      by (simp add: Cons_nth_drop_Suc)
    from True have "processRows sheetName cols rows i acc =
        processRows sheetName cols rows (i + 1)
          (case rowRecord sheetName cols (rows ! i) of None \<Rightarrow> acc | Some r \<Rightarrow> acc @ [r])"
      by (subst processRows.simps) simp
    also have "\<dots> = (case rowRecord sheetName cols (rows ! i) of None \<Rightarrow> acc | Some r \<Rightarrow> acc @ [r])
        @ List.map_filter (rowRecord sheetName cols) (drop (i + 1) rows)"
      using True by (rule "1.IH")
    also have "\<dots> = acc @ List.map_filter (rowRecord sheetName cols) (drop i rows)"
      by (simp add: d split: option.split)
    finally show ?thesis .
  next
    case False
    then show ?thesis by (subst processRows.simps) simp
  qed
qed

lemma rowRecord_None: "(rowRecord sheetName cols row = None) = testerBlank cols row"
  by (simp add: rowRecord_def testerBlank_def Let_def)

lemma rowRecord_tester:
  "rowRecord sheetName cols row = Some r \<Longrightarrow> trim (tester r) \<noteq> []"
  by (auto simp: rowRecord_def Let_def split: if_splits)

lemma rowRecord_status:
  "rowRecord sheetName cols row = Some r \<Longrightarrow>
     overallStatus r =
       (if trim (orEmpty (at row (statusIdx cols))) = [] then ''Not Started''
        else trim (orEmpty (at row (statusIdx cols))))"
  by (auto simp: rowRecord_def Let_def split: if_splits)

lemma map_filter_rowRecord:
  "List.map_filter (rowRecord sheetName cols) rows =
     map (the \<circ> rowRecord sheetName cols) (filter (\<lambda>row. \<not> testerBlank cols row) rows)"
  by (simp add: List.map_filter_def rowRecord_None)

lemma processValueRange_allData:
  "allData (processValueRange st vr) =
     allData st @ List.map_filter (rowRecord (fst vr) (sheetCols vr)) (dataRows vr)"
proof (cases "toLowerCase (fst vr) = ''index''")
  case True
  then show ?thesis
    by (simp add: processValueRange_def Let_def dataRows_def headerFoundIn_def
        split: option.split)
next
  case False
  show ?thesis
  proof (cases "snd vr")
    case None
    with False show ?thesis
      by (simp add: processValueRange_def Let_def dataRows_def headerFoundIn_def)
  next
    case (Some rows)
    show ?thesis
    proof (cases "findIndex isHeaderRow rows = - 1")
      case True
      with False Some show ?thesis
        by (simp add: processValueRange_def Let_def dataRows_def headerFoundIn_def)
    next
      case found: False
      then have "rows \<noteq> []" by (auto simp: findIndex_def)
      with False Some found show ?thesis
        by (simp add: processValueRange_def Let_def dataRows_def headerFoundIn_def
            sheetCols_def processRows_map_filter)
    qed
  qed
qed

lemma findIndex_Nil: "findIndex P [] = - 1"
  by (simp add: findIndex_def)

lemma rowCount_below_header:
  assumes "findIndex isHeaderRow rows \<noteq> - 1"
  shows "int (length rows) - findIndex isHeaderRow rows - 1 =
         int (length (drop (nat (findIndex isHeaderRow rows + 1)) rows))"
  using findIndex_range [OF assms] by simp arith

lemma processValueRange_summaries:
  "sheetSummaries (processValueRange st vr) =
     sheetSummaries st @
       (if toLowerCase (fst vr) = ''index'' then []
        else [\<lparr>name = fst vr, rowCount = int (length (dataRows vr)),
               headerFound = headerFoundIn vr\<rparr>])"
proof (cases "toLowerCase (fst vr) = ''index''")
  case True
  then show ?thesis
    by (simp add: processValueRange_def Let_def split: option.split)
next
  case False
  show ?thesis
  proof (cases "snd vr")
    case None
    with False show ?thesis
      by (simp add: processValueRange_def Let_def dataRows_def headerFoundIn_def)
  next
    case (Some rows)
    show ?thesis
    proof (cases "findIndex isHeaderRow rows = - 1")
      case True
      with False Some show ?thesis
        by (simp add: processValueRange_def Let_def dataRows_def headerFoundIn_def)
    next
      case found: False
      then have "rows \<noteq> []" using findIndex_Nil [of isHeaderRow] by auto
      with False Some found rowCount_below_header [OF found] show ?thesis
        by (simp add: processValueRange_def Let_def dataRows_def headerFoundIn_def)
    qed
  qed
qed

lemma foldl_processValueRange_allData:
  "allData (foldl processValueRange st vrs) =
     allData st @
       concat (map (\<lambda>vr. List.map_filter (rowRecord (fst vr) (sheetCols vr)) (dataRows vr)) vrs)"
  by (induction vrs arbitrary: st) (simp_all add: processValueRange_allData)

lemma fetchAllSheetsData_allData:
  "allData (fetchAllSheetsData vrs) =
     concat (map (\<lambda>vr. List.map_filter (rowRecord (fst vr) (sheetCols vr)) (dataRows vr)) vrs)"
  by (simp add: fetchAllSheetsData_def foldl_processValueRange_allData)

lemma allData_origin:
  assumes "r \<in> set (allData (fetchAllSheetsData vrs))"
  shows "\<exists>vr\<in>set vrs. \<exists>row\<in>set (dataRows vr). rowRecord (fst vr) (sheetCols vr) row = Some r"
proof -
  from assms obtain vr where vr: "vr \<in> set vrs"
    and r: "r \<in> set (List.map_filter (rowRecord (fst vr) (sheetCols vr)) (dataRows vr))"
    by (auto simp: fetchAllSheetsData_allData)
  from r obtain row where "row \<in> set (dataRows vr)"
    and "rowRecord (fst vr) (sheetCols vr) row = Some r"
    by (auto simp: List.map_filter_def)
  with vr show ?thesis by blast
qed

lemma allData_status_nonempty:
  assumes "r \<in> set (allData (fetchAllSheetsData vrs))"
  shows "overallStatus r \<noteq> []"
proof -
  from allData_origin [OF assms] obtain vr row
    where "rowRecord (fst vr) (sheetCols vr) row = Some r" by blast
  then show ?thesis by (simp add: rowRecord_status)
qed

lemma headerFoundIn_empty:
  "snd vr = None \<or> snd vr = Some [] \<Longrightarrow> \<not> headerFoundIn vr"
  by (auto simp: headerFoundIn_def findIndex_Nil)

lemma dataRows_no_header: "\<not> headerFoundIn vr \<Longrightarrow> dataRows vr = []"
  by (simp add: dataRows_def)

lemma locateColumns_no_status:
  assumes "\<forall>cell\<in>set header. \<not> includesStr (toLowerCase cell) ''overall status''"
  shows "statusIdx (locateColumns header) = - 1"
proof -
  from assms have "\<not> list_ex (labelled ''overall status'') header"
    by (simp add: list_ex_iff labelled_def)
  then show ?thesis by (simp add: locateColumns_def findIndex_none)
qed

lemma at_out_of_range: "i = - 1 \<or> int (length xs) \<le> i \<Longrightarrow> at xs i = None"
  by (auto simp: at_def)

text \<open>
  Claim C1.  The Records that \<open>fetchAllSheetsData\<close> emits are, sheet after sheet and row after
  row, the Records of the rows below the header whose tester cell is not blank; a row whose
  tester cell is empty, all whitespace or beyond the end of the row gives no Record (the
  loop body takes its \<open>continue\<close>), and no emitted Record has a blank tester.
\<close>

theorem blank_tester_rows_never_emitted:
  "allData (fetchAllSheetsData valueRanges) =
     concat (map (\<lambda>vr. map (the \<circ> rowRecord (fst vr) (sheetCols vr))
                        (filter (\<lambda>row. \<not> testerBlank (sheetCols vr) row) (dataRows vr)))
               valueRanges) \<and>
   (\<forall>r\<in>set (allData (fetchAllSheetsData valueRanges)). trim (tester r) \<noteq> []) \<and>
   (rowRecord sheetName cols row = None) = testerBlank cols row \<and>
   (int (length row) \<le> testerIdx cols \<longrightarrow> rowRecord sheetName cols row = None)"
proof (intro conjI ballI impI)
  show "allData (fetchAllSheetsData valueRanges) =
     concat (map (\<lambda>vr. map (the \<circ> rowRecord (fst vr) (sheetCols vr))
                        (filter (\<lambda>row. \<not> testerBlank (sheetCols vr) row) (dataRows vr)))
               valueRanges)"
    by (simp add: fetchAllSheetsData_allData map_filter_rowRecord)
next
  fix r assume "r \<in> set (allData (fetchAllSheetsData valueRanges))"
  then obtain vr row where "rowRecord (fst vr) (sheetCols vr) row = Some r"
    using allData_origin by blast
  then show "trim (tester r) \<noteq> []" by (rule rowRecord_tester)
next
  show "(rowRecord sheetName cols row = None) = testerBlank cols row"
    by (rule rowRecord_None)
next
  assume "int (length row) \<le> testerIdx cols"
  then have "at row (testerIdx cols) = None" by (simp add: at_out_of_range)
  then show "rowRecord sheetName cols row = None"
    by (simp add: rowRecord_None testerBlank_def orEmpty_def trim_def)
qed

theorem blank_tester_rows_never_emitted_witness:
  "map tester (allData (fetchAllSheetsData
      [(''NR-1'', Some [[''Overall Status'', ''Tester''], [''Passed'', ''Alice''], [''Passed'', ''   ''], [''Failed''], ['''', ''Bob'']])])) = [''Alice'', ''Bob''] \<and>
   trim (tester (hd (allData (fetchAllSheetsData
      [(''NR-1'', Some [[''Overall Status'', ''Tester''], [''Passed'', ''Alice''], [''Passed'', ''   ''], [''Failed''], ['''', ''Bob'']])])))) \<noteq> [] \<and>
   rowRecord ''NR-1'' (locateColumns [''Overall Status'', ''Tester'']) [''Failed''] = None"
proof -
  let ?X = "[(''NR-1'', Some [[''Overall Status'', ''Tester''], [''Passed'', ''Alice''], [''Passed'', ''   ''], [''Failed''], ['''', ''Bob'']])]"
  have e: "map tester (allData (fetchAllSheetsData ?X)) = [''Alice'', ''Bob'']"
    by code_simp
  then have m: "hd (allData (fetchAllSheetsData ?X)) \<in> set (allData (fetchAllSheetsData ?X))"
    by (cases "allData (fetchAllSheetsData ?X)") auto
  have l: "int (length [''Failed'']) \<le> testerIdx (locateColumns [''Overall Status'', ''Tester''])"
    by code_simp
  from blank_tester_rows_never_emitted
    [of ?X "''NR-1''" "locateColumns [''Overall Status'', ''Tester'']" "[''Failed'']"] e m l
  show ?thesis by blast
qed

text \<open>
  Claim C2.  No emitted Record has an empty \<open>overallStatus\<close>, and every emitted Record is the
  Record of a data row of one of the sheets.  The Record of a row has the status
  \<open>Not Started\<close> when the raw status cell is empty or all whitespace, and the trimmed raw
  status otherwise; the cell counts as empty when the status column was not located or the
  row is too short to reach it.
\<close>

theorem overallStatus_defaults_to_Not_Started:
  "(\<forall>r\<in>set (allData (fetchAllSheetsData valueRanges)).
      overallStatus r \<noteq> [] \<and>
      (\<exists>vr\<in>set valueRanges. \<exists>row\<in>set (dataRows vr).
         rowRecord (fst vr) (sheetCols vr) row = Some r)) \<and>
   (rowRecord sheetName cols row = Some r' \<longrightarrow>
      overallStatus r' =
        (if trim (orEmpty (at row (statusIdx cols))) = [] then ''Not Started''
         else trim (orEmpty (at row (statusIdx cols))))) \<and>
   (rowRecord sheetName cols row = Some r' \<and>
      (statusIdx cols = - 1 \<or> int (length row) \<le> statusIdx cols) \<longrightarrow>
      overallStatus r' = ''Not Started'')"
proof (intro conjI ballI impI)
  fix r assume r: "r \<in> set (allData (fetchAllSheetsData valueRanges))"
  then obtain vr row where "rowRecord (fst vr) (sheetCols vr) row = Some r"
    using allData_origin by blast
  then show "overallStatus r \<noteq> []"
    by (simp add: rowRecord_status)
  from r show "\<exists>vr\<in>set valueRanges. \<exists>row\<in>set (dataRows vr).
      rowRecord (fst vr) (sheetCols vr) row = Some r"
    by (rule allData_origin)
next
  assume "rowRecord sheetName cols row = Some r'"
  then show "overallStatus r' =
        (if trim (orEmpty (at row (statusIdx cols))) = [] then ''Not Started''
         else trim (orEmpty (at row (statusIdx cols))))"
    by (rule rowRecord_status)
next
  assume a: "rowRecord sheetName cols row = Some r' \<and>
      (statusIdx cols = - 1 \<or> int (length row) \<le> statusIdx cols)"
  then have rr: "rowRecord sheetName cols row = Some r'"
    and "at row (statusIdx cols) = None"
    by (simp_all add: at_out_of_range)
  with rowRecord_status [OF rr] show "overallStatus r' = ''Not Started''"
    by (simp add: orEmpty_def trim_def)
qed

theorem overallStatus_defaults_to_Not_Started_witness:
  "overallStatus (hd (allData (fetchAllSheetsData
      [(''NR-1'', Some [[''Overall Status'', ''Tester''], [''Passed'', ''Alice''], [''Passed'', ''   ''], [''Failed''], ['''', ''Bob'']])]))) \<noteq> [] \<and>
   rowRecord ''NR-1'' (locateColumns [''Tester'', ''Overall Status'']) [''Bob''] =
     Some \<lparr>tester = ''Bob'', jiraTicket = ''NR-1'', iteration = [],
            overallStatus = ''Not Started'', defect = [], comments = []\<rparr> \<and>
   overallStatus \<lparr>tester = ''Bob'', jiraTicket = ''NR-1'', iteration = [],
            overallStatus = ''Not Started'', defect = [], comments = []\<rparr> = ''Not Started''"
proof -
  let ?X = "[(''NR-1'', Some [[''Overall Status'', ''Tester''], [''Passed'', ''Alice''], [''Passed'', ''   ''], [''Failed''], ['''', ''Bob'']])]"
  let ?r = "\<lparr>tester = ''Bob'', jiraTicket = ''NR-1'', iteration = [],
            overallStatus = ''Not Started'', defect = [], comments = []\<rparr>"
  have "allData (fetchAllSheetsData ?X) \<noteq> []"
    by code_simp
  then have m: "hd (allData (fetchAllSheetsData ?X)) \<in> set (allData (fetchAllSheetsData ?X))"
    by simp
  have rr: "rowRecord ''NR-1'' (locateColumns [''Tester'', ''Overall Status'']) [''Bob''] = Some ?r"
    by code_simp
  have l: "int (length [''Bob'']) \<le> statusIdx (locateColumns [''Tester'', ''Overall Status''])"
    by code_simp
  from overallStatus_defaults_to_Not_Started
    [of ?X "''NR-1''" "locateColumns [''Tester'', ''Overall Status'']" "[''Bob'']" ?r] m rr l
  show ?thesis by blast
qed

text \<open>
  Claim C10.  When the located header row of a sheet has no cell whose lower-cased text
  contains \<open>overall status\<close>, every Record that the sheet adds to \<open>allData\<close> has the status
  \<open>Not Started\<close>, whatever its data rows hold.
\<close>

theorem no_status_column_gives_Not_Started:
  assumes "findIndex isHeaderRow rows \<noteq> - 1"
    and "\<forall>cell\<in>set (rows ! nat (findIndex isHeaderRow rows)).
           \<not> includesStr (toLowerCase cell) ''overall status''"
  shows "\<exists>recs. allData (processValueRange st (sheetName, Some rows)) = allData st @ recs \<and>
           (\<forall>r\<in>set recs. overallStatus r = ''Not Started'')"
proof -
  let ?vr = "(sheetName, Some rows)"
  let ?recs = "List.map_filter (rowRecord (fst ?vr) (sheetCols ?vr)) (dataRows ?vr)"
  have idx: "statusIdx (sheetCols ?vr) = - 1"
    using assms(2) by (simp add: sheetCols_def locateColumns_no_status)
  have "overallStatus r = ''Not Started''" if "r \<in> set ?recs" for r
  proof -
    from that obtain row where "rowRecord (fst ?vr) (sheetCols ?vr) row = Some r"
      by (auto simp: List.map_filter_def)
    then have "overallStatus r =
        (if trim (orEmpty (at row (statusIdx (sheetCols ?vr)))) = [] then ''Not Started''
         else trim (orEmpty (at row (statusIdx (sheetCols ?vr)))))"
      by (rule rowRecord_status)
    then show ?thesis
      by (simp add: idx at_out_of_range orEmpty_def trim_def)
  qed
  moreover have "allData (processValueRange st ?vr) = allData st @ ?recs"
    by (rule processValueRange_allData)
  ultimately show ?thesis by blast
qed

theorem no_status_column_gives_Not_Started_witness:
  "map overallStatus (allData (processValueRange
      \<lparr>allData = [], sheetSummaries = [], indexSheetRows = None\<rparr>
      (''NR-2'', Some [[''Tester'', ''Status''], [''Alice'', ''Passed'']]))) = [''Not Started'']"
proof -
  let ?rows = "[[''Tester'', ''Status''], [''Alice'', ''Passed'']]"
  let ?st = "\<lparr>allData = [], sheetSummaries = [], indexSheetRows = None\<rparr>"
  have h1: "findIndex isHeaderRow ?rows \<noteq> - 1" by code_simp
  have h2: "\<forall>cell\<in>set (?rows ! nat (findIndex isHeaderRow ?rows)).
           \<not> includesStr (toLowerCase cell) ''overall status''" by code_simp
  have e: "length (allData (processValueRange ?st (''NR-2'', Some ?rows))) = 1" by code_simp
  from no_status_column_gives_Not_Started [OF h1 h2, of ?st "''NR-2''"]
  obtain recs where r: "allData (processValueRange ?st (''NR-2'', Some ?rows)) = recs"
    and a: "\<forall>r\<in>set recs. overallStatus r = ''Not Started''" by auto
  from e r obtain x where "recs = [x]" by (cases recs) auto
  with a r show ?thesis by simp
qed

text \<open>
  Claim C7 as stated fails: the summary counts the rows that were skipped as well.  Below,
  a sheet with one Record and one row of blank tester has the count 2.
\<close>

theorem summary_rowCount_counterexample:
  "sheetSummaries (fetchAllSheetsData
      [(''NR-1'', Some [[''Tester''], [''Alice''], [''   '']])]) =
     [\<lparr>name = ''NR-1'', rowCount = 2, headerFound = True\<rparr>] \<and>
   length (allData (fetchAllSheetsData
      [(''NR-1'', Some [[''Tester''], [''Alice''], [''   '']])])) = 1 \<and>
   rowCount (hd (sheetSummaries (fetchAllSheetsData
      [(''NR-1'', Some [[''Tester''], [''Alice''], [''   '']])]))) \<noteq>
     int (length (allData (fetchAllSheetsData
      [(''NR-1'', Some [[''Tester''], [''Alice''], [''   '']])])))"
  by code_simp

text \<open>
  Claim C7, as amended.  Every sheet other than the index sheet adds one summary.  Its
  \<open>rowCount\<close> is the number of rows below the header row, which is the number of Records
  emitted from the sheet plus the number of rows skipped for a blank tester.  A sheet
  without values, without rows or without a header row has the count 0, \<open>headerFound\<close> false
  and no Records.
\<close>

theorem summary_rowCount_counts_rows_below_header:
  assumes "toLowerCase (fst vr) \<noteq> ''index''"
  shows "\<exists>s recs.
           sheetSummaries (processValueRange st vr) = sheetSummaries st @ [s] \<and>
           allData (processValueRange st vr) = allData st @ recs \<and>
           name s = fst vr \<and>
           headerFound s = headerFoundIn vr \<and>
           rowCount s = int (length (dataRows vr)) \<and>
           rowCount s =
             int (length recs) + int (length (filter (testerBlank (sheetCols vr)) (dataRows vr))) \<and>
           (snd vr = None \<or> snd vr = Some [] \<or> \<not> headerFoundIn vr \<longrightarrow>
              rowCount s = 0 \<and> \<not> headerFound s \<and> recs = [])"
proof -
  let ?s = "\<lparr>name = fst vr, rowCount = int (length (dataRows vr)),
             headerFound = headerFoundIn vr\<rparr>"
  let ?recs = "List.map_filter (rowRecord (fst vr) (sheetCols vr)) (dataRows vr)"
  have 1: "sheetSummaries (processValueRange st vr) = sheetSummaries st @ [?s]"
    using assms by (simp add: processValueRange_summaries)
  have 2: "allData (processValueRange st vr) = allData st @ ?recs"
    by (rule processValueRange_allData)
  have "length (dataRows vr) =
      length (filter (\<lambda>row. \<not> testerBlank (sheetCols vr) row) (dataRows vr)) +
      length (filter (testerBlank (sheetCols vr)) (dataRows vr))"
    using sum_length_filter_compl [of "testerBlank (sheetCols vr)" "dataRows vr"] by simp
  then have 3: "rowCount ?s =
      int (length ?recs) + int (length (filter (testerBlank (sheetCols vr)) (dataRows vr)))"
    by (simp add: map_filter_rowRecord)
  have 4: "snd vr = None \<or> snd vr = Some [] \<or> \<not> headerFoundIn vr \<longrightarrow>
      rowCount ?s = 0 \<and> \<not> headerFound ?s \<and> ?recs = []"
    using headerFoundIn_empty [of vr] by (auto simp: dataRows_no_header)
  show ?thesis
  proof (intro exI conjI)
    show "sheetSummaries (processValueRange st vr) = sheetSummaries st @ [?s]" by (rule 1)
    show "allData (processValueRange st vr) = allData st @ ?recs" by (rule 2)
    show "name ?s = fst vr" by simp
    show "headerFound ?s = headerFoundIn vr" by simp
    show "rowCount ?s = int (length (dataRows vr))" by simp
    show "rowCount ?s =
      int (length ?recs) + int (length (filter (testerBlank (sheetCols vr)) (dataRows vr)))"
      by (rule 3)
    show "snd vr = None \<or> snd vr = Some [] \<or> \<not> headerFoundIn vr \<longrightarrow>
      rowCount ?s = 0 \<and> \<not> headerFound ?s \<and> ?recs = []"
      by (rule 4)
  qed
qed

theorem summary_rowCount_counts_rows_below_header_witness:
  "sheetSummaries (processValueRange
      \<lparr>allData = [], sheetSummaries = [], indexSheetRows = None\<rparr>
      (''NR-1'', Some [[''Tester''], [''Alice''], [''   '']])) =
     [\<lparr>name = ''NR-1'', rowCount = 2, headerFound = True\<rparr>]"
proof -
  let ?vr = "(''NR-1'', Some [[''Tester''], [''Alice''], [''   '']])"
  let ?st = "\<lparr>allData = [], sheetSummaries = [], indexSheetRows = None\<rparr>"
  have h: "toLowerCase (fst ?vr) \<noteq> ''index''" by code_simp
  have d: "int (length (dataRows ?vr)) = 2" and f: "headerFoundIn ?vr = True"
    by code_simp+
  from summary_rowCount_counts_rows_below_header [OF h, of ?st]
  obtain s where "sheetSummaries (processValueRange ?st ?vr) = [s]"
    and "name s = ''NR-1''" and "headerFound s = headerFoundIn ?vr"
    and "rowCount s = int (length (dataRows ?vr))" by auto
  with d f show ?thesis by simp
qed

section \<open>Properties of the status list\<close>

lemma removeAll_filter_conv: "removeAll x (filter P xs) = filter (\<lambda>y. P y \<and> y \<noteq> x) xs"
  by (induction xs) auto

lemma set_firstSeen: "set (firstSeen xs) = set xs"
proof (induction xs rule: firstSeen.induct)
  case 1
  then show ?case by simp
next
  case (2 x xs)
  then show ?case by auto
qed

lemma distinct_firstSeen: "distinct (firstSeen xs)"
  by (induction xs rule: firstSeen.induct) (simp_all add: set_firstSeen)

lemma setAdd_simps:
  "x \<in> set S \<Longrightarrow> setAdd S x = S"
  "x \<notin> set S \<Longrightarrow> setAdd S x = S @ [x]"
  by (simp_all add: setAdd_def)

lemma pushMissing_simps:
  "s \<in> set L \<Longrightarrow> pushMissing L s = L"
  "s \<notin> set L \<Longrightarrow> pushMissing L s = L @ [s]"
  by (simp_all add: pushMissing_def)

lemma foldl_setAdd:
  "foldl setAdd S xs = S @ firstSeen (filter (\<lambda>x. x \<notin> set S) xs)"
proof (induction xs arbitrary: S)
  case Nil
  then show ?case by simp
next
  case (Cons x xs)
  show ?case
  proof (cases "x \<in> set S")
    case True
    then show ?thesis by (simp add: setAdd_simps Cons.IH)
  next
    case False
    have "filter (\<lambda>y. y \<notin> set (S @ [x])) xs = removeAll x (filter (\<lambda>y. y \<notin> set S) xs)"
      by (simp add: removeAll_filter_conv conj_commute)
    with False show ?thesis by (simp add: setAdd_simps Cons.IH)
  qed
qed

lemma newSet_firstSeen: "newSet xs = firstSeen xs"
  by (simp add: newSet_def foldl_setAdd)

lemma foldl_pushMissing:
  "distinct S \<Longrightarrow> foldl pushMissing L S = L @ filter (\<lambda>s. s \<notin> set L) S"
proof (induction S arbitrary: L)
  case Nil
  then show ?case by simp
next
  case (Cons s S)
  then have s: "s \<notin> set S" and d: "distinct S" by simp_all
  show ?case
  proof (cases "s \<in> set L")
    case True
    then show ?thesis by (simp add: pushMissing_simps Cons.IH [OF d])
  next
    case False
    from s have "filter (\<lambda>y. y \<notin> set (L @ [s])) S = filter (\<lambda>y. y \<notin> set L) S"
      by (intro filter_cong) auto
    with False show ?thesis by (simp add: pushMissing_simps Cons.IH [OF d])
  qed
qed

lemma statusList_eq:
  "statusList rows =
     filter (\<lambda>s. s \<in> set (filter (\<lambda>s. s \<noteq> []) (map overallStatus rows))) statusOrder @
     filter (\<lambda>s. s \<notin> set statusOrder)
       (firstSeen (filter (\<lambda>s. s \<noteq> []) (map overallStatus rows)))"
proof -
  let ?S = "firstSeen (filter (\<lambda>s. s \<noteq> []) (map overallStatus rows))"
  let ?L = "filter (\<lambda>s. s \<in> set ?S) statusOrder"
  have "statusList rows = ?L @ filter (\<lambda>s. s \<notin> set ?L) ?S"
    by (simp add: statusList_def newSet_firstSeen Let_def foldl_pushMissing distinct_firstSeen)
  moreover have "filter (\<lambda>s. s \<notin> set ?L) ?S = filter (\<lambda>s. s \<notin> set statusOrder) ?S"
    by (intro filter_cong) auto
  ultimately show ?thesis by (simp add: set_firstSeen)
qed

text \<open>
  Claim C3.  For Records, whose \<open>overallStatus\<close> is never empty, the status list is the
  canonical statuses that occur among the Records, in the canonical order, followed by the
  other statuses that occur, each once, in the order in which they are first seen.  A
  canonical status that does not occur is left out.  This holds of every sequence of
  Records with a status each, and so of the Records that \<open>fetchAllSheetsData\<close> emits, which
  are the only ones the report is generated from.
\<close>

theorem statusList_canonical_then_first_seen:
  "((\<forall>r\<in>set records. overallStatus r \<noteq> []) \<longrightarrow>
      statusList records =
        filter (\<lambda>s. s \<in> overallStatus ` set records) statusOrder @
        filter (\<lambda>s. s \<notin> set statusOrder) (firstSeen (map overallStatus records))) \<and>
   statusList (allData (fetchAllSheetsData valueRanges)) =
     filter (\<lambda>s. s \<in> overallStatus ` set (allData (fetchAllSheetsData valueRanges)))
       statusOrder @
     filter (\<lambda>s. s \<notin> set statusOrder)
       (firstSeen (map overallStatus (allData (fetchAllSheetsData valueRanges))))"
proof -
  have general: "statusList rs =
        filter (\<lambda>s. s \<in> overallStatus ` set rs) statusOrder @
        filter (\<lambda>s. s \<notin> set statusOrder) (firstSeen (map overallStatus rs))"
    if "\<forall>r\<in>set rs. overallStatus r \<noteq> []" for rs
  proof -
    from that have "filter (\<lambda>s. s \<noteq> []) (map overallStatus rs) = map overallStatus rs"
      by (simp add: filter_id_conv)
    then show ?thesis by (simp add: statusList_eq)
  qed
  have "\<forall>r\<in>set (allData (fetchAllSheetsData valueRanges)). overallStatus r \<noteq> []"
    by (intro ballI) (rule allData_status_nonempty)
  with general show ?thesis by blast
qed

theorem statusList_canonical_then_first_seen_witness:
  "statusList
     (map (\<lambda>s. \<lparr>tester = ''Alice'', jiraTicket = ''NR-1'', iteration = [],
                 overallStatus = s, defect = [], comments = []\<rparr>)
        [''Retest'', ''Not Started'', ''Passed'', ''Retest'', ''Deferred'']) =
   [''Passed'', ''Not Started'', ''Retest'', ''Deferred'']"
proof -
  let ?rows = "map (\<lambda>s. \<lparr>tester = ''Alice'', jiraTicket = ''NR-1'', iteration = [],
                 overallStatus = s, defect = [], comments = []\<rparr>)
        [''Retest'', ''Not Started'', ''Passed'', ''Retest'', ''Deferred'']"
  have h: "\<forall>r\<in>set ?rows. overallStatus r \<noteq> []" by simp
  have e: "filter (\<lambda>s. s \<in> overallStatus ` set ?rows) statusOrder @
     filter (\<lambda>s. s \<notin> set statusOrder) (firstSeen (map overallStatus ?rows)) =
     [''Passed'', ''Not Started'', ''Retest'', ''Deferred'']"
    by code_simp
  from statusList_canonical_then_first_seen [of ?rows, THEN conjunct1, THEN mp, OF h] e
  show ?thesis by (rule trans)
qed

section \<open>Properties of the grouping by tester\<close>

lemma firstSeen_Nil_iff: "(firstSeen xs = []) = (xs = [])"
  by (cases xs) simp_all

lemma map_fst_addToEntry: "map fst (addToEntry t x m) = map fst m"
  by (induction m) auto

lemma map_of_addToEntry:
  "map_of (addToEntry t x m) t' =
     (if t' = t then map_option (\<lambda>s. setAdd s x) (map_of m t) else map_of m t')"
  by (induction m) auto

lemma map_fst_trackIteration:
  "map fst (trackIteration m row) = setAdd (map fst m) (jiraTicket row)"
  by (simp add: trackIteration_def Let_def map_fst_addToEntry setAdd_def)

lemma map_of_trackIteration:
  "map_of (trackIteration m row) t =
     (if t = jiraTicket row
      then Some (setAdd (case map_of m t of None \<Rightarrow> [] | Some s \<Rightarrow> s) (iterationLabel row))
      else map_of m t)"
proof (cases "jiraTicket row \<in> fst ` set m")
  case True
  then obtain s where "map_of m (jiraTicket row) = Some s"
    by (metis map_of_eq_None_iff not_None_eq)
  with True show ?thesis
    by (simp add: trackIteration_def Let_def map_of_addToEntry iterationLabel_def)
next
  case False
  then have "map_of m (jiraTicket row) = None" by (simp add: map_of_eq_None_iff)
  with False show ?thesis
    by (auto simp: trackIteration_def Let_def map_of_addToEntry iterationLabel_def map_add_def
        split: option.split)
qed

lemma map_fst_foldl_trackIteration:
  "map fst (foldl trackIteration m rs) = foldl setAdd (map fst m) (map jiraTicket rs)"
  by (induction rs arbitrary: m) (simp_all add: map_fst_trackIteration)

lemma map_of_foldl_trackIteration:
  "map_of (foldl trackIteration m rs) t =
     (if filter (\<lambda>r. jiraTicket r = t) rs = [] then map_of m t
      else Some (foldl setAdd (case map_of m t of None \<Rightarrow> [] | Some s \<Rightarrow> s)
                  (map iterationLabel (filter (\<lambda>r. jiraTicket r = t) rs))))"
proof (induction rs arbitrary: m)
  case Nil
  then show ?case by simp
next
  case (Cons r rs)
  show ?case
  proof (cases "jiraTicket r = t")
    case True
    then show ?thesis
      by (simp add: Cons.IH map_of_trackIteration)
  next
    case False
    then have "t \<noteq> jiraTicket r" by auto
    with False show ?thesis
      by (simp add: Cons.IH map_of_trackIteration)
  qed
qed

lemma ticketIterations_foldl_addRow:
  "ticketIterations (foldl addRow g rs) = foldl trackIteration (ticketIterations g) rs"
  by (induction rs arbitrary: g) (simp_all add: addRow_def)

lemma groupRows_foldl_addRow: "groupRows (foldl addRow g rs) = groupRows g @ rs"
  by (induction rs arbitrary: g) (simp_all add: addRow_def)

lemma rowsFor_simps:
  "rowsFor key [] = []"
  "rowsFor key (r # rs) = (if trim (tester r) = key then r # rowsFor key rs else rowsFor key rs)"
  by (simp_all add: rowsFor_def)

lemma groupData_key:
  assumes "groupData grouped rs = Inr grouped'" and "key \<noteq> []"
  shows "grouped' key =
     (case grouped key of
        Some g \<Rightarrow> Some (foldl addRow g (rowsFor key rs))
      | None \<Rightarrow>
          if rowsFor key rs = [] then None
          else Some (foldl addRow
                 \<lparr>groupTester = key, groupRows = [], groupStatusCounts = Map.empty,
                   ticketIterations = []\<rparr> (rowsFor key rs)))"
  using assms(1)
proof (induction rs arbitrary: grouped)
  case Nil
  then show ?case by (simp add: rowsFor_simps split: option.split)
next
  case (Cons row rest)
  from Cons.prems obtain g1 where g1: "groupRow grouped row = Inr g1"
    and rest: "groupData g1 rest = Inr grouped'"
    by (auto split: sum.splits)
  note IH = Cons.IH [OF rest]
  show ?case
  proof (cases "trim (tester row) = key")
    case True
    show ?thesis
    proof (cases "grouped key")
      case None
      with g1 True assms(2) have "g1 key = Some (addRow
          \<lparr>groupTester = key, groupRows = [], groupStatusCounts = Map.empty,
            ticketIterations = []\<rparr> row)"
        by (auto simp: groupRow_def Let_def split: if_splits)
      with IH None True show ?thesis by (simp add: rowsFor_simps)
    next
      case (Some g)
      with g1 True assms(2) have "g1 key = Some (addRow g row)"
        by (auto simp: groupRow_def Let_def)
      with IH Some True show ?thesis by (simp add: rowsFor_simps)
    qed
  next
    case False
    with g1 have same: "g1 key = grouped key"
      by (auto simp: groupRow_def Let_def split: if_splits option.splits)
    from False have eq: "rowsFor key (row # rest) = rowsFor key rest"
      by (simp add: rowsFor_simps)
    from IH same show ?thesis unfolding eq by simp
  qed
qed

lemma groupData_empty_key:
  "groupData grouped rs = Inr grouped' \<Longrightarrow> grouped [] = None \<Longrightarrow> grouped' [] = None"
proof (induction rs arbitrary: grouped)
  case Nil
  then show ?case by simp
next
  case (Cons row rest)
  from Cons.prems(1) obtain g1 where g1: "groupRow grouped row = Inr g1"
    and rest: "groupData g1 rest = Inr grouped'"
    by (auto split: sum.splits)
  from g1 Cons.prems(2) have "g1 [] = None"
    by (auto simp: groupRow_def Let_def split: if_splits option.splits)
  with Cons.IH [OF rest] show ?case by simp
qed

lemma groupData_group:
  assumes "groupData Map.empty records = Inr grouped" and "grouped key = Some g"
  shows "key \<noteq> [] \<and> rowsFor key records \<noteq> [] \<and>
         g = foldl addRow \<lparr>groupTester = key, groupRows = [], groupStatusCounts = Map.empty,
                           ticketIterations = []\<rparr> (rowsFor key records)"
proof -
  from groupData_empty_key [OF assms(1)] assms(2) have k: "key \<noteq> []" by auto
  from groupData_key [OF assms(1) k] assms(2) show ?thesis
    using k by (simp split: if_splits)
qed

lemma group_tickets:
  assumes "groupData Map.empty records = Inr grouped" and "grouped key = Some g"
  shows "map fst (ticketIterations g) = firstSeen (map jiraTicket (rowsFor key records))"
  using groupData_group [OF assms]
  by (simp add: ticketIterations_foldl_addRow map_fst_foldl_trackIteration foldl_setAdd)

lemma group_iterations:
  assumes "groupData Map.empty records = Inr grouped" and "grouped key = Some g"
    and "(ticket, iterations) \<in> set (ticketIterations g)"
  shows "iterations =
     firstSeen (map iterationLabel (filter (\<lambda>r. jiraTicket r = ticket) (rowsFor key records))) \<and>
     filter (\<lambda>r. jiraTicket r = ticket) (rowsFor key records) \<noteq> []"
proof -
  let ?rs = "rowsFor key records"
  have ti: "ticketIterations g = foldl trackIteration [] ?rs"
    using groupData_group [OF assms(1,2)] by (simp add: ticketIterations_foldl_addRow)
  have "distinct (map fst (ticketIterations g))"
    by (simp add: group_tickets [OF assms(1,2)] distinct_firstSeen)
  with assms(3) have m: "map_of (ticketIterations g) ticket = Some iterations" by simp
  have "ticket \<in> set (map fst (ticketIterations g))"
    using assms(3) by force
  then have "ticket \<in> set (map jiraTicket ?rs)"
    by (simp add: group_tickets [OF assms(1,2)] set_firstSeen)
  then have ne: "filter (\<lambda>r. jiraTicket r = ticket) ?rs \<noteq> []"
    by (auto simp: filter_empty_conv)
  with m show ?thesis
    by (simp add: ti map_of_foldl_trackIteration foldl_setAdd)
qed

lemma groupRow_keeps_inherited:
  assumes "\<forall>k\<in>set objectPrototypeKeys. grouped k = None"
    and "groupRow grouped row = Inr g1"
  shows "\<forall>k\<in>set objectPrototypeKeys. g1 k = None"
  using assms by (auto simp: groupRow_def Let_def split: if_splits option.splits)

lemma groupRow_throws:
  assumes "\<forall>k\<in>set objectPrototypeKeys. grouped k = None"
  shows "(\<exists>g1. groupRow grouped row = Inr g1) = (trim (tester row) \<notin> set objectPrototypeKeys)"
proof (cases "trim (tester row) \<in> set objectPrototypeKeys")
  case True
  then have "trim (tester row) \<noteq> []" by (auto simp: objectPrototypeKeys_def)
  with True assms show ?thesis by (simp add: groupRow_def Let_def)
next
  case False
  then show ?thesis by (simp add: groupRow_def Let_def split: option.split)
qed

lemma groupData_returns:
  assumes "\<forall>k\<in>set objectPrototypeKeys. grouped k = None"
  shows "(\<exists>grouped'. groupData grouped records = Inr grouped') =
         (\<forall>r\<in>set records. trim (tester r) \<notin> set objectPrototypeKeys)"
  using assms
proof (induction records arbitrary: grouped)
  case Nil
  then show ?case by simp
next
  case (Cons row rest)
  show ?case
  proof (cases "groupRow grouped row")
    case (Inl e)
    with groupRow_throws [OF Cons.prems, of row] show ?thesis by auto
  next
    case (Inr g1)
    with groupRow_throws [OF Cons.prems, of row]
    have ok: "trim (tester row) \<notin> set objectPrototypeKeys" by auto
    from Cons.IH [OF groupRow_keeps_inherited [OF Cons.prems Inr]] ok Inr
    show ?thesis by simp
  qed
qed

lemma groupData_inherited_key_throws:
  "(case groupData Map.empty
      [\<lparr>tester = ''constructor'', jiraTicket = ''NR-1'', iteration = [],
        overallStatus = ''Passed'', defect = [], comments = []\<rparr>] of
      Inl e \<Rightarrow> e = TypeError | Inr grouped \<Rightarrow> False)"
  by code_simp

lemma group_uniqueTicketCount:
  assumes "groupData Map.empty records = Inr grouped" and "grouped key = Some g"
  shows "uniqueTicketCount (testerDataOf statuses key g) =
         card (jiraTicket ` {r \<in> set records. trim (tester r) = key})"
proof -
  have "uniqueTicketCount (testerDataOf statuses key g) = length (map fst (ticketIterations g))"
    by (simp add: testerDataOf_def)
  also have "\<dots> = card (set (map jiraTicket (rowsFor key records)))"
    by (simp only: group_tickets [OF assms] distinct_card [OF distinct_firstSeen, symmetric]
        set_firstSeen)
  also have "set (map jiraTicket (rowsFor key records)) =
      jiraTicket ` {r \<in> set records. trim (tester r) = key}"
    by (simp add: rowsFor_def)
  finally show ?thesis .
qed

lemma group_ticketDetails:
  assumes "groupData Map.empty records = Inr grouped" and "grouped key = Some g"
  shows "map fst (ticketDetails (testerDataOf statuses key g)) =
           firstSeen (map jiraTicket (rowsFor key records)) \<and>
         (\<forall>r\<in>set records. trim (tester r) = key \<longrightarrow>
            jiraTicket r \<in> fst ` set (ticketDetails (testerDataOf statuses key g))) \<and>
         (\<forall>(ticket, n)\<in>set (ticketDetails (testerDataOf statuses key g)).
            n = card (iterationLabel `
                  {r \<in> set records. trim (tester r) = key \<and> jiraTicket r = ticket}) \<and>
            1 \<le> n)"
proof (intro conjI ballI impI)
  have fst_eq: "map fst (ticketDetails (testerDataOf statuses key g)) =
      map fst (ticketIterations g)"
    by (simp add: testerDataOf_def case_prod_unfold)
  then show 1: "map fst (ticketDetails (testerDataOf statuses key g)) =
           firstSeen (map jiraTicket (rowsFor key records))"
    by (simp add: group_tickets [OF assms])
  {
    fix r assume "r \<in> set records" and "trim (tester r) = key"
    then have "jiraTicket r \<in> set (map jiraTicket (rowsFor key records))"
      by (simp add: rowsFor_def)
    then have "jiraTicket r \<in> set (map fst (ticketDetails (testerDataOf statuses key g)))"
      by (simp only: 1 set_firstSeen)
    then show "jiraTicket r \<in> fst ` set (ticketDetails (testerDataOf statuses key g))"
      by simp
  }
  {
    fix p assume "p \<in> set (ticketDetails (testerDataOf statuses key g))"
    then obtain ticket iterations where p: "p = (ticket, length iterations)"
      and e: "(ticket, iterations) \<in> set (ticketIterations g)"
      by (auto simp: testerDataOf_def)
    let ?rs = "filter (\<lambda>r. jiraTicket r = ticket) (rowsFor key records)"
    from group_iterations [OF assms e]
    have it: "iterations = firstSeen (map iterationLabel ?rs)" and ne: "?rs \<noteq> []"
      by simp_all
    have "length iterations = card (set (map iterationLabel ?rs))"
      by (simp only: it distinct_card [OF distinct_firstSeen, symmetric] set_firstSeen)
    also have "set (map iterationLabel ?rs) =
        iterationLabel ` {r \<in> set records. trim (tester r) = key \<and> jiraTicket r = ticket}"
      by (auto simp: rowsFor_def)
    finally have n: "length iterations =
        card (iterationLabel ` {r \<in> set records. trim (tester r) = key \<and> jiraTicket r = ticket})" .
    from ne have "iterations \<noteq> []"
      by (simp add: it firstSeen_Nil_iff)
    then have "1 \<le> length iterations" by (cases iterations) simp_all
    with n p show "case p of (ticket, n) \<Rightarrow>
            n = card (iterationLabel `
                  {r \<in> set records. trim (tester r) = key \<and> jiraTicket r = ticket}) \<and>
            1 \<le> n"
      by simp
  }
qed

lemma groupData_groups_every_tester:
  assumes "\<forall>r\<in>set records. trim (tester r) \<notin> set objectPrototypeKeys"
  shows "\<exists>grouped. groupData Map.empty records = Inr grouped \<and>
           (\<forall>r\<in>set records. trim (tester r) \<noteq> [] \<longrightarrow> grouped (trim (tester r)) \<noteq> None)"
proof -
  from assms obtain grouped where g: "groupData Map.empty records = Inr grouped"
    using groupData_returns [of Map.empty records] by auto
  have "grouped (trim (tester r)) \<noteq> None"
    if "r \<in> set records" and "trim (tester r) \<noteq> []" for r
  proof -
    from that(1) have "rowsFor (trim (tester r)) records \<noteq> []"
      by (auto simp: rowsFor_def filter_empty_conv)
    with groupData_key [OF g that(2)] show ?thesis by simp
  qed
  with g show ?thesis by blast
qed

text \<open>
  Claim C6.  When the grouping returns, the \<open>uniqueTicketCount\<close> of every tester it has
  grouped is the number of distinct \<open>jiraTicket\<close> values among the Records of that tester.
  The grouping returns, with a group for every tester that has a Record, unless a trimmed
  tester name is a key inherited from \<open>Object.prototype\<close>.
\<close>

theorem uniqueTicketCount_counts_distinct_tickets:
  "(\<forall>grouped key g.
      groupData Map.empty records = Inr grouped \<and> grouped key = Some g \<longrightarrow>
      uniqueTicketCount (testerDataOf statuses key g) =
        card (jiraTicket ` {r \<in> set records. trim (tester r) = key})) \<and>
   ((\<forall>r\<in>set records. trim (tester r) \<notin> set objectPrototypeKeys) \<longrightarrow>
     (\<exists>grouped. groupData Map.empty records = Inr grouped \<and>
        (\<forall>r\<in>set records. trim (tester r) \<noteq> [] \<longrightarrow> grouped (trim (tester r)) \<noteq> None)))"
proof (rule conjI)
  show "\<forall>grouped key g.
      groupData Map.empty records = Inr grouped \<and> grouped key = Some g \<longrightarrow>
      uniqueTicketCount (testerDataOf statuses key g) =
        card (jiraTicket ` {r \<in> set records. trim (tester r) = key})"
    by (intro allI impI, elim conjE) (rule group_uniqueTicketCount)
  show "(\<forall>r\<in>set records. trim (tester r) \<notin> set objectPrototypeKeys) \<longrightarrow>
     (\<exists>grouped. groupData Map.empty records = Inr grouped \<and>
        (\<forall>r\<in>set records. trim (tester r) \<noteq> [] \<longrightarrow> grouped (trim (tester r)) \<noteq> None))"
    by (intro impI) (rule groupData_groups_every_tester)
qed

theorem uniqueTicketCount_counts_distinct_tickets_witness:
  "\<exists>grouped g.
     groupData Map.empty
       [\<lparr>tester = ''Alice'', jiraTicket = ''NR-1'', iteration = [],
          overallStatus = ''Passed'', defect = [], comments = []\<rparr>,
        \<lparr>tester = ''Bob'', jiraTicket = ''NR-1'', iteration = ''2'',
          overallStatus = ''Failed'', defect = [], comments = []\<rparr>,
        \<lparr>tester = '' Alice'', jiraTicket = ''NR-1'', iteration = ''1'',
          overallStatus = ''Passed'', defect = [], comments = []\<rparr>,
        \<lparr>tester = ''Alice'', jiraTicket = ''NR-2'', iteration = ''2'',
          overallStatus = ''Blocked'', defect = [], comments = []\<rparr>,
        \<lparr>tester = ''Alice'', jiraTicket = ''NR-2'', iteration = ''3'',
          overallStatus = ''Passed'', defect = [], comments = []\<rparr>] = Inr grouped \<and>
     grouped ''Alice'' = Some g \<and>
     uniqueTicketCount (testerDataOf [] ''Alice'' g) = 2"
proof -
  let ?recs = "[\<lparr>tester = ''Alice'', jiraTicket = ''NR-1'', iteration = [],
          overallStatus = ''Passed'', defect = [], comments = []\<rparr>,
        \<lparr>tester = ''Bob'', jiraTicket = ''NR-1'', iteration = ''2'',
          overallStatus = ''Failed'', defect = [], comments = []\<rparr>,
        \<lparr>tester = '' Alice'', jiraTicket = ''NR-1'', iteration = ''1'',
          overallStatus = ''Passed'', defect = [], comments = []\<rparr>,
        \<lparr>tester = ''Alice'', jiraTicket = ''NR-2'', iteration = ''2'',
          overallStatus = ''Blocked'', defect = [], comments = []\<rparr>,
        \<lparr>tester = ''Alice'', jiraTicket = ''NR-2'', iteration = ''3'',
          overallStatus = ''Passed'', defect = [], comments = []\<rparr>]"
  note part1 = uniqueTicketCount_counts_distinct_tickets
    [of ?recs "[]", THEN conjunct1, THEN spec, THEN spec, THEN spec, THEN mp, OF conjI]
  note part2 = uniqueTicketCount_counts_distinct_tickets
    [of ?recs "[]", THEN conjunct2, THEN mp]
  have ok: "\<forall>r\<in>set ?recs. trim (tester r) \<notin> set objectPrototypeKeys" by code_simp
  have a: "hd ?recs \<in> set ?recs" and k: "trim (tester (hd ?recs)) = ''Alice''"
    by code_simp+
  from part2 [OF ok] obtain grouped where g: "groupData Map.empty ?recs = Inr grouped"
    and all: "\<forall>r\<in>set ?recs. trim (tester r) \<noteq> [] \<longrightarrow> grouped (trim (tester r)) \<noteq> None"
    by (elim exE conjE)
  from all [rule_format, OF a] k have "grouped ''Alice'' \<noteq> None" by simp
  then obtain gr where gr: "grouped ''Alice'' = Some gr" by auto
  have "card (jiraTicket ` {r \<in> set ?recs. trim (tester r) = ''Alice''}) = 2" by code_simp
  with part1 [OF g gr] have "uniqueTicketCount (testerDataOf [] ''Alice'' gr) = 2" by simp
  with g gr show ?thesis by blast
qed

text \<open>
  Claim C5.  When the grouping returns, the \<open>ticketDetails\<close> of every tester it has grouped
  list the tickets of the tester's Records in the order in which they are first seen, so
  every ticket the tester has a Record for has an entry; the count of an entry is the
  number of distinct iteration labels of the tester's Records for that ticket, with \<open>1\<close>
  standing for an empty label, and it is at least 1.  The grouping returns, with a group
  for every tester that has a Record, unless a trimmed tester name is a key inherited from
  \<open>Object.prototype\<close>.
\<close>

theorem iterationCaseCount_counts_labels:
  "(\<forall>grouped key g.
      groupData Map.empty records = Inr grouped \<and> grouped key = Some g \<longrightarrow>
      map fst (ticketDetails (testerDataOf statuses key g)) =
        firstSeen (map jiraTicket (rowsFor key records)) \<and>
      (\<forall>r\<in>set records. trim (tester r) = key \<longrightarrow>
         jiraTicket r \<in> fst ` set (ticketDetails (testerDataOf statuses key g))) \<and>
      (\<forall>(ticket, n)\<in>set (ticketDetails (testerDataOf statuses key g)).
         n = card (iterationLabel `
               {r \<in> set records. trim (tester r) = key \<and> jiraTicket r = ticket}) \<and>
         1 \<le> n)) \<and>
   ((\<forall>r\<in>set records. trim (tester r) \<notin> set objectPrototypeKeys) \<longrightarrow>
     (\<exists>grouped. groupData Map.empty records = Inr grouped \<and>
        (\<forall>r\<in>set records. trim (tester r) \<noteq> [] \<longrightarrow> grouped (trim (tester r)) \<noteq> None)))"
proof (rule conjI)
  show "\<forall>grouped key g.
      groupData Map.empty records = Inr grouped \<and> grouped key = Some g \<longrightarrow>
      map fst (ticketDetails (testerDataOf statuses key g)) =
        firstSeen (map jiraTicket (rowsFor key records)) \<and>
      (\<forall>r\<in>set records. trim (tester r) = key \<longrightarrow>
         jiraTicket r \<in> fst ` set (ticketDetails (testerDataOf statuses key g))) \<and>
      (\<forall>(ticket, n)\<in>set (ticketDetails (testerDataOf statuses key g)).
         n = card (iterationLabel `
               {r \<in> set records. trim (tester r) = key \<and> jiraTicket r = ticket}) \<and>
         1 \<le> n)"
    by (intro allI impI, elim conjE) (rule group_ticketDetails)
  show "(\<forall>r\<in>set records. trim (tester r) \<notin> set objectPrototypeKeys) \<longrightarrow>
     (\<exists>grouped. groupData Map.empty records = Inr grouped \<and>
        (\<forall>r\<in>set records. trim (tester r) \<noteq> [] \<longrightarrow> grouped (trim (tester r)) \<noteq> None))"
    by (intro impI) (rule groupData_groups_every_tester)
qed

theorem iterationCaseCount_counts_labels_witness:
  "\<exists>grouped g.
     groupData Map.empty
       [\<lparr>tester = ''Alice'', jiraTicket = ''NR-1'', iteration = [],
          overallStatus = ''Passed'', defect = [], comments = []\<rparr>,
        \<lparr>tester = ''Bob'', jiraTicket = ''NR-1'', iteration = ''2'',
          overallStatus = ''Failed'', defect = [], comments = []\<rparr>,
        \<lparr>tester = '' Alice'', jiraTicket = ''NR-1'', iteration = ''1'',
          overallStatus = ''Passed'', defect = [], comments = []\<rparr>,
        \<lparr>tester = ''Alice'', jiraTicket = ''NR-2'', iteration = ''2'',
          overallStatus = ''Blocked'', defect = [], comments = []\<rparr>,
        \<lparr>tester = ''Alice'', jiraTicket = ''NR-2'', iteration = ''3'',
          overallStatus = ''Passed'', defect = [], comments = []\<rparr>] = Inr grouped \<and>
     grouped ''Alice'' = Some g \<and>
     ticketDetails (testerDataOf [] ''Alice'' g) = [(''NR-1'', 1), (''NR-2'', 2)]"
proof -
  let ?recs = "[\<lparr>tester = ''Alice'', jiraTicket = ''NR-1'', iteration = [],
          overallStatus = ''Passed'', defect = [], comments = []\<rparr>,
        \<lparr>tester = ''Bob'', jiraTicket = ''NR-1'', iteration = ''2'',
          overallStatus = ''Failed'', defect = [], comments = []\<rparr>,
        \<lparr>tester = '' Alice'', jiraTicket = ''NR-1'', iteration = ''1'',
          overallStatus = ''Passed'', defect = [], comments = []\<rparr>,
        \<lparr>tester = ''Alice'', jiraTicket = ''NR-2'', iteration = ''2'',
          overallStatus = ''Blocked'', defect = [], comments = []\<rparr>,
        \<lparr>tester = ''Alice'', jiraTicket = ''NR-2'', iteration = ''3'',
          overallStatus = ''Passed'', defect = [], comments = []\<rparr>]"
  note part1 = iterationCaseCount_counts_labels
    [of ?recs "[]", THEN conjunct1, THEN spec, THEN spec, THEN spec, THEN mp, OF conjI]
  note part2 = iterationCaseCount_counts_labels
    [of ?recs "[]", THEN conjunct2, THEN mp]
  have ok: "\<forall>r\<in>set ?recs. trim (tester r) \<notin> set objectPrototypeKeys" by code_simp
  have a: "hd ?recs \<in> set ?recs" and k: "trim (tester (hd ?recs)) = ''Alice''"
    by code_simp+
  from part2 [OF ok] obtain grouped where g: "groupData Map.empty ?recs = Inr grouped"
    and all: "\<forall>r\<in>set ?recs. trim (tester r) \<noteq> [] \<longrightarrow> grouped (trim (tester r)) \<noteq> None"
    by (elim exE conjE)
  from all [rule_format, OF a] k have "grouped ''Alice'' \<noteq> None" by simp
  then obtain gr where gr: "grouped ''Alice'' = Some gr" by auto
  let ?td = "ticketDetails (testerDataOf [] ''Alice'' gr)"
  have fs: "firstSeen (map jiraTicket (rowsFor ''Alice'' ?recs)) = [''NR-1'', ''NR-2'']"
    by code_simp
  have c1: "card (iterationLabel `
      {r \<in> set ?recs. trim (tester r) = ''Alice'' \<and> jiraTicket r = ''NR-1''}) = 1"
    by code_simp
  have c2: "card (iterationLabel `
      {r \<in> set ?recs. trim (tester r) = ''Alice'' \<and> jiraTicket r = ''NR-2''}) = 2"
    by code_simp
  note p = part1 [OF g gr]
  from p [THEN conjunct1]
  have m: "map fst ?td = firstSeen (map jiraTicket (rowsFor ''Alice'' ?recs))" .
  from p [THEN conjunct2, THEN conjunct2]
  have c: "\<forall>(ticket, n)\<in>set ?td.
      n = card (iterationLabel `
            {r \<in> set ?recs. trim (tester r) = ''Alice'' \<and> jiraTicket r = ticket}) \<and> 1 \<le> n" .
  from m fs have "map fst ?td = [''NR-1'', ''NR-2'']" by simp
  then obtain n1 n2 where td: "?td = [(''NR-1'', n1), (''NR-2'', n2)]"
    by (cases ?td; cases "tl ?td") auto
  from c have "n1 = 1" and "n2 = 2"
    unfolding td using c1 c2 by simp_all
  with td g gr show ?thesis by auto
qed

section \<open>Properties of the iteration label\<close>

lemma itrAt_Nil: "\<not> itrAt []"
  by (simp add: itrAt_def)

lemma replaceItr_no_match:
  "(\<forall>k. \<not> itrAt (drop k s)) \<Longrightarrow> replaceItr s = s"
proof (induction s)
  case Nil
  then show ?case by simp
next
  case (Cons c cs)
  from Cons.prems have "\<not> itrAt (drop 0 (c # cs))" by blast
  then have 0: "\<not> itrAt (c # cs)" by simp
  have "\<not> itrAt (drop k cs)" for k
    using Cons.prems [rule_format, of "Suc k"] by simp
  with Cons.IH 0 show ?case by simp
qed

lemma replaceItr_first_match:
  assumes "itrAt rest" and "\<forall>k<length pre. \<not> itrAt (drop k (pre @ rest))"
  shows "replaceItr (pre @ rest) = pre @ afterSep (drop 3 rest)"
  using assms(2)
proof (induction pre)
  case Nil
  from assms(1) obtain c cs where "rest = c # cs"
    by (cases rest) (simp_all add: itrAt_Nil)
  with assms(1) show ?case by simp
next
  case (Cons p ps)
  from Cons.prems [rule_format, of 0] have 0: "\<not> itrAt (p # ps @ rest)" by simp
  have "\<forall>k<length ps. \<not> itrAt (drop k (ps @ rest))"
  proof (intro allI impI)
    fix k assume "k < length ps"
    then have "Suc k < length (p # ps)" by simp
    with Cons.prems have "\<not> itrAt (drop (Suc k) ((p # ps) @ rest))" by blast
    then show "\<not> itrAt (drop k (ps @ rest))" by simp
  qed
  with Cons.IH 0 show ?case by simp
qed

lemma digit_not_sep: "isDigit c \<Longrightarrow> \<not> isSep c"
  by (auto simp: isDigit_def isSep_def)

lemma digit_not_space: "isDigit c \<Longrightarrow> \<not> isWhiteSpace c"
  by (auto simp: isDigit_def isWhiteSpace_def)

lemma trim_id:
  assumes "s \<noteq> []" and "\<not> isWhiteSpace (hd s)" and "\<not> isWhiteSpace (last s)"
  shows "trim s = s"
proof -
  from assms(1,2) have 1: "dropWhile isWhiteSpace s = s" by (cases s) simp_all
  from assms(1,3) have 2: "dropWhile isWhiteSpace (rev s) = rev s"
    by (cases "rev s") (simp_all add: last_rev [symmetric] del: last_rev)
  show ?thesis by (simp add: trim_def 1 2)
qed

lemma trim_digits:
  assumes "ds \<noteq> []" and "\<forall>c\<in>set ds. isDigit c"
  shows "trim ds = ds"
proof (rule trim_id [OF assms(1)])
  from assms show "\<not> isWhiteSpace (hd ds)" by (simp add: digit_not_space)
  from assms show "\<not> isWhiteSpace (last ds)" by (simp add: digit_not_space)
qed

lemma afterSep_digits:
  assumes "ds \<noteq> []" and "\<forall>c\<in>set ds. isDigit c"
  shows "afterSep ds = ds"
  using assms by (cases ds) (simp_all add: afterSep_def digit_not_sep)

lemma itrTokenAt_Some:
  assumes "itrTokenAt s = Some m"
  shows "itrAt m \<and> (\<exists>post. s = m @ post) \<and> afterSep (drop 3 m) \<noteq> [] \<and>
         (\<forall>c\<in>set (afterSep (drop 3 m)). isDigit c) \<and> itrTokenAt m = Some m"
proof -
  from assms have i: "itrAt s" by (simp add: itrTokenAt_def split: if_splits)
  then obtain a b c rest where s: "s = a # b # c # rest"
    by (auto simp: itrAt_def split: list.splits)
  let ?ds = "takeWhile isDigit (afterSep rest)"
  let ?sep = "take (length rest - length (afterSep rest)) rest"
  from assms s have ds: "?ds \<noteq> []" and m: "m = a # b # c # ?sep @ ?ds"
    by (auto simp: itrTokenAt_def Let_def split: if_splits)
  have dig: "\<forall>d\<in>set ?ds. isDigit d" by (auto dest: set_takeWhileD)
  have sep: "afterSep (?sep @ ?ds) = ?ds \<and> ?sep @ afterSep rest = rest"
  proof (cases rest)
    case Nil
    then show ?thesis by (simp add: afterSep_def)
  next
    case (Cons x xs)
    show ?thesis
    proof (cases "isSep x")
      case True
      with Cons show ?thesis by (simp add: afterSep_def)
    next
      case False
      with Cons have "afterSep rest = rest" by (simp add: afterSep_def)
      with ds dig show ?thesis by (simp add: afterSep_digits)
    qed
  qed
  have rest: "rest = ?sep @ ?ds @ dropWhile isDigit (afterSep rest)"
    using sep by (metis takeWhile_dropWhile_id)
  have 1: "itrAt m" using i s m by (simp add: itrAt_def)
  have 2: "s = m @ dropWhile isDigit (afterSep rest)"
    using s m rest by simp
  have 3: "afterSep (drop 3 m) = ?ds" using m sep by simp
  have "takeWhile isDigit ?ds = ?ds" by (simp add: takeWhile_eq_all_conv dig)
  then have 4: "itrTokenAt m = Some m"
    using 1 3 ds m sep
    by (simp add: itrTokenAt_def Let_def)
  from 1 2 3 4 ds dig show ?thesis by auto
qed

lemma matchItr_Some:
  "matchItr s = Some m \<Longrightarrow>
     \<exists>pre post. s = pre @ m @ post \<and> itrTokenAt (m @ post) = Some m \<and>
       (\<forall>k<length pre. itrTokenAt (drop k s) = None)"
proof (induction s)
  case Nil
  then show ?case by simp
next
  case (Cons c cs)
  show ?case
  proof (cases "itrTokenAt (c # cs)")
    case (Some t)
    with Cons.prems have t: "t = m" by simp
    from itrTokenAt_Some [OF Some] t obtain post where "c # cs = m @ post" by auto
    with Some t have "c # cs = [] @ m @ post \<and> itrTokenAt (m @ post) = Some m \<and>
       (\<forall>k<length ([]::string). itrTokenAt (drop k (c # cs)) = None)" by simp
    then show ?thesis by blast
  next
    case None
    with Cons.prems have "matchItr cs = Some m" by simp
    from Cons.IH [OF this] obtain pre post where cs: "cs = pre @ m @ post"
      and tok: "itrTokenAt (m @ post) = Some m"
      and no: "\<forall>k<length pre. itrTokenAt (drop k cs) = None" by blast
    have "\<forall>k<length (c # pre). itrTokenAt (drop k (c # cs)) = None"
    proof (intro allI impI)
      fix k assume k: "k < length (c # pre)"
      show "itrTokenAt (drop k (c # cs)) = None"
      proof (cases k)
        case 0
        with None show ?thesis by simp
      next
        case (Suc j)
        with k no show ?thesis by simp
      qed
    qed
    with cs tok have "c # cs = (c # pre) @ m @ post \<and> itrTokenAt (m @ post) = Some m \<and>
       (\<forall>k<length (c # pre). itrTokenAt (drop k (c # cs)) = None)" by simp
    then show ?thesis by blast
  qed
qed

lemma matchItr_None:
  "matchItr s = None \<Longrightarrow> itrTokenAt (drop k s) = None"
proof (induction s arbitrary: k)
  case Nil
  then show ?case by (simp add: itrTokenAt_def itrAt_Nil)
next
  case (Cons c cs)
  then have 0: "itrTokenAt (c # cs) = None" and r: "matchItr cs = None"
    by (simp_all split: option.splits)
  show ?case
  proof (cases k)
    case 0
    with \<open>itrTokenAt (c # cs) = None\<close> show ?thesis by simp
  next
    case (Suc j)
    with Cons.IH [OF r] show ?thesis by simp
  qed
qed

lemma token_label:
  assumes "itrTokenAt s = Some m"
  shows "trim (replaceItr m) = afterSep (drop 3 m) \<and> stripLeadingItr m = afterSep (drop 3 m)"
proof -
  from itrTokenAt_Some [OF assms] have i: "itrAt m"
    and ne: "afterSep (drop 3 m) \<noteq> []" and dig: "\<forall>c\<in>set (afterSep (drop 3 m)). isDigit c"
    by auto
  from i obtain c cs where "m = c # cs" by (cases m) (simp_all add: itrAt_Nil)
  with i have "replaceItr m = afterSep (drop 3 m)" by simp
  with i trim_digits [OF ne dig] show ?thesis by (simp add: stripLeadingItr_def)
qed

lemma rowRecord_iteration:
  "rowRecord sheetName cols row = Some r \<Longrightarrow>
     iteration r = trim (replaceItr (rawIteration sheetName cols row))"
  by (auto simp: rowRecord_def resolveIteration_def Let_def split: if_splits)

lemma trim_Nil: "trim [] = []"
  by (simp add: trim_def)

text \<open>
  Claim C4 as stated fails for a cell of the iteration column that holds \<open>itr\<close> after other
  text: the expression \<open>/itr[- ]?/i\<close> has no anchor, so the first \<open>itr\<close> is removed wherever it
  is, while stripping a leading prefix only would leave the cell as it is.
\<close>

theorem iteration_label_counterexample:
  "map_option iteration
     (rowRecord ''NR-1'' (locateColumns [''Tester'', ''Iteration''])
        [''Alice'', ''Retest itr-2'']) = Some ''Retest 2'' \<and>
   stripLeadingItr ''Retest itr-2'' = ''Retest itr-2'' \<and>
   map_option iteration
     (rowRecord ''NR-1'' (locateColumns [''Tester'', ''Iteration''])
        [''Alice'', ''Retest itr-2'']) \<noteq> Some (stripLeadingItr ''Retest itr-2'')"
  by code_simp

text \<open>
  Claim C4, as amended.  The iteration label of an emitted Record is the raw value with its
  first \<open>itr\<close> and the optional \<open>-\<close> or space after it removed, wherever in the value that
  first \<open>itr\<close> is, and then trimmed.  The raw value is the cell of the iteration column when
  the header has one, and otherwise the leftmost token \<open>itr\<close>, optional \<open>-\<close> or space, digits
  of the sheet name, or the empty string without such a token.  A raw value that begins
  with \<open>itr\<close> loses exactly that leading prefix, as every token of a sheet name does: its
  label is its digits.  A raw value without \<open>itr\<close> is only trimmed.
\<close>

theorem iteration_label_removes_first_itr:
  assumes "rowRecord sheetName cols row = Some r"
  shows "iteration r = trim (replaceItr (rawIteration sheetName cols row)) \<and>
    (iterationIdx cols \<noteq> - 1 \<longrightarrow>
       rawIteration sheetName cols row = orEmpty (at row (iterationIdx cols))) \<and>
    (iterationIdx cols = - 1 \<and> matchItr sheetName = None \<longrightarrow>
       iteration r = [] \<and> (\<forall>k. itrTokenAt (drop k sheetName) = None)) \<and>
    (\<forall>m. iterationIdx cols = - 1 \<and> matchItr sheetName = Some m \<longrightarrow>
       (\<exists>pre post. sheetName = pre @ m @ post \<and> itrTokenAt (m @ post) = Some m \<and>
          (\<forall>k<length pre. itrTokenAt (drop k sheetName) = None)) \<and>
       iteration r = stripLeadingItr m \<and> iteration r = afterSep (drop 3 m) \<and>
       iteration r \<noteq> [] \<and> (\<forall>c\<in>set (iteration r). isDigit c)) \<and>
    (itrAt (rawIteration sheetName cols row) \<longrightarrow>
       iteration r = stripLeadingItr (rawIteration sheetName cols row)) \<and>
    ((\<forall>k. \<not> itrAt (drop k (rawIteration sheetName cols row))) \<longrightarrow>
       iteration r = trim (rawIteration sheetName cols row)) \<and>
    (\<forall>pre rest. rawIteration sheetName cols row = pre @ rest \<and> itrAt rest \<and>
       (\<forall>k<length pre. \<not> itrAt (drop k (pre @ rest))) \<longrightarrow>
       iteration r = trim (pre @ afterSep (drop 3 rest)))"
proof -
  let ?raw = "rawIteration sheetName cols row"
  note it = rowRecord_iteration [OF assms]
  have 2: "iterationIdx cols \<noteq> - 1 \<longrightarrow> ?raw = orEmpty (at row (iterationIdx cols))"
    by (simp add: rawIteration_def)
  have 3: "iterationIdx cols = - 1 \<and> matchItr sheetName = None \<longrightarrow>
       iteration r = [] \<and> (\<forall>k. itrTokenAt (drop k sheetName) = None)"
    using it by (auto simp: rawIteration_def trim_Nil matchItr_None)
  have 4: "\<forall>m. iterationIdx cols = - 1 \<and> matchItr sheetName = Some m \<longrightarrow>
       (\<exists>pre post. sheetName = pre @ m @ post \<and> itrTokenAt (m @ post) = Some m \<and>
          (\<forall>k<length pre. itrTokenAt (drop k sheetName) = None)) \<and>
       iteration r = stripLeadingItr m \<and> iteration r = afterSep (drop 3 m) \<and>
       iteration r \<noteq> [] \<and> (\<forall>c\<in>set (iteration r). isDigit c)"
  proof (intro allI impI)
    fix m assume a: "iterationIdx cols = - 1 \<and> matchItr sheetName = Some m"
    then have raw: "?raw = m" by (simp add: rawIteration_def)
    from a matchItr_Some [of sheetName m]
    obtain pre post where sp: "sheetName = pre @ m @ post"
      and tok: "itrTokenAt (m @ post) = Some m"
      and first: "\<forall>k<length pre. itrTokenAt (drop k sheetName) = None" by blast
    from token_label [OF tok] it raw
    have l: "iteration r = afterSep (drop 3 m)" and l': "iteration r = stripLeadingItr m"
      by simp_all
    from itrTokenAt_Some [OF tok] l
    have "iteration r \<noteq> []" and "\<forall>c\<in>set (iteration r). isDigit c" by simp_all
    with sp tok first l l'
    show "(\<exists>pre post. sheetName = pre @ m @ post \<and> itrTokenAt (m @ post) = Some m \<and>
          (\<forall>k<length pre. itrTokenAt (drop k sheetName) = None)) \<and>
       iteration r = stripLeadingItr m \<and> iteration r = afterSep (drop 3 m) \<and>
       iteration r \<noteq> [] \<and> (\<forall>c\<in>set (iteration r). isDigit c)"
      by blast
  qed
  have 5: "itrAt ?raw \<longrightarrow> iteration r = stripLeadingItr ?raw"
  proof
    assume i: "itrAt ?raw"
    then obtain c cs where "?raw = c # cs" by (cases ?raw) (simp_all add: itrAt_Nil)
    with i have "replaceItr ?raw = afterSep (drop 3 ?raw)" by simp
    with i it show "iteration r = stripLeadingItr ?raw" by (simp add: stripLeadingItr_def)
  qed
  have 6: "(\<forall>k. \<not> itrAt (drop k ?raw)) \<longrightarrow> iteration r = trim ?raw"
    using it by (simp add: replaceItr_no_match)
  have 7: "\<forall>pre rest. ?raw = pre @ rest \<and> itrAt rest \<and>
       (\<forall>k<length pre. \<not> itrAt (drop k (pre @ rest))) \<longrightarrow>
       iteration r = trim (pre @ afterSep (drop 3 rest))"
    using it by (auto simp: replaceItr_first_match)
  from it 2 3 4 5 6 7 show ?thesis by blast
qed

theorem iteration_label_removes_first_itr_witness:
  "iteration \<lparr>tester = ''Alice'', jiraTicket = ''ITR-7 Checkout'', iteration = ''7'',
      overallStatus = ''Not Started'', defect = [], comments = []\<rparr> =
     stripLeadingItr ''ITR-7'' \<and>
   rowRecord ''ITR-7 Checkout'' (locateColumns [''Tester'']) [''Alice''] =
     Some \<lparr>tester = ''Alice'', jiraTicket = ''ITR-7 Checkout'', iteration = ''7'',
      overallStatus = ''Not Started'', defect = [], comments = []\<rparr> \<and>
   rowRecord ''NR-1'' (locateColumns [''Tester'', ''Iteration'']) [''Alice'', ''itr 4''] =
     Some \<lparr>tester = ''Alice'', jiraTicket = ''NR-1'', iteration = ''4'',
      overallStatus = ''Not Started'', defect = [], comments = []\<rparr> \<and>
   iteration \<lparr>tester = ''Alice'', jiraTicket = ''NR-1'', iteration = ''4'',
      overallStatus = ''Not Started'', defect = [], comments = []\<rparr> =
     stripLeadingItr ''itr 4''"
proof -
  let ?r1 = "\<lparr>tester = ''Alice'', jiraTicket = ''ITR-7 Checkout'', iteration = ''7'',
      overallStatus = ''Not Started'', defect = [], comments = []\<rparr>"
  let ?r2 = "\<lparr>tester = ''Alice'', jiraTicket = ''NR-1'', iteration = ''4'',
      overallStatus = ''Not Started'', defect = [], comments = []\<rparr>"
  have rr1: "rowRecord ''ITR-7 Checkout'' (locateColumns [''Tester'']) [''Alice''] = Some ?r1"
    by code_simp
  have rr2: "rowRecord ''NR-1'' (locateColumns [''Tester'', ''Iteration''])
      [''Alice'', ''itr 4''] = Some ?r2"
    by code_simp
  have i1: "iterationIdx (locateColumns [''Tester'']) = - 1"
    and m1: "matchItr ''ITR-7 Checkout'' = Some ''ITR-7''"
    by code_simp+
  have raw2: "rawIteration ''NR-1'' (locateColumns [''Tester'', ''Iteration''])
      [''Alice'', ''itr 4''] = ''itr 4''"
    and i2: "itrAt ''itr 4''"
    by code_simp+
  from iteration_label_removes_first_itr [OF rr1] i1 m1
  have 1: "iteration ?r1 = stripLeadingItr ''ITR-7''" by blast
  from iteration_label_removes_first_itr [OF rr2] raw2 i2
  have 2: "iteration ?r2 = stripLeadingItr ''itr 4''" by simp
  from 1 2 rr1 rr2 show ?thesis by blast
qed

section \<open>Properties of the index of stories\<close>

lemma indexHeaderFrom_testScenarioIdx:
  "\<forall>cell\<in>set header. \<not> includesStr (toLowerCase cell) ''test scenario'' \<Longrightarrow>
     testScenarioIdx (indexHeaderFrom cols header i) = testScenarioIdx cols"
  by (induction header arbitrary: cols i) (simp_all add: indexHeaderCell_def Let_def)

lemma indexHeaderFrom_testExecutionIdx:
  "\<forall>cell\<in>set header. \<not> includesStr (toLowerCase cell) ''test execution'' \<Longrightarrow>
     testExecutionIdx (indexHeaderFrom cols header i) = testExecutionIdx cols"
  by (induction header arbitrary: cols i) (simp_all add: indexHeaderCell_def Let_def)

lemma indexHeaderFrom_testStoryIdx:
  "\<forall>cell\<in>set header. \<not> includesStr (toLowerCase cell) ''test story'' \<Longrightarrow>
     testStoryIdx (indexHeaderFrom cols header i) = testStoryIdx cols"
  by (induction header arbitrary: cols i) (simp_all add: indexHeaderCell_def Let_def)

lemma indexHeaderFrom_descIdx:
  "\<forall>cell\<in>set header. \<not> includesStr (toLowerCase cell) ''description'' \<Longrightarrow>
     descIdx (indexHeaderFrom cols header i) = descIdx cols"
  by (induction header arbitrary: cols i) (simp_all add: indexHeaderCell_def Let_def)

lemma indexHeaderFrom_indexStatusIdx:
  "\<forall>cell\<in>set header. \<not> includesStr (toLowerCase cell) ''status'' \<Longrightarrow>
     indexStatusIdx (indexHeaderFrom cols header i) = indexStatusIdx cols"
  by (induction header arbitrary: cols i) (simp_all add: indexHeaderCell_def Let_def)

lemma increment_other: "s \<noteq> k \<Longrightarrow> increment m k s = m s"
  by (auto simp: increment_def split: option.split jsCount.split)

lemma increment_own_key:
  "s \<notin> set objectPrototypeKeys \<Longrightarrow>
     increment m s s = Some (case m s of None \<Rightarrow> Count 1 | Some (Count n) \<Rightarrow> Count (n + 1)
                              | Some NotANumber \<Rightarrow> NotANumber)"
  by (simp add: increment_def split: option.split jsCount.split)

lemma countStatus_key:
  "countStatus i m row s =
     (if orEmpty (at row i) = s \<and> trim s \<noteq> [] then increment m s s else m s)"
proof (cases "orEmpty (at row i) = s")
  case True
  then show ?thesis by (simp add: countStatus_def Let_def)
next
  case False
  then have "s \<noteq> orEmpty (at row i)" by auto
  with False show ?thesis by (simp add: countStatus_def Let_def increment_other)
qed

lemma foldl_countStatus_counted:
  assumes "s \<notin> set objectPrototypeKeys" and "m s = Some (Count k)"
  shows "foldl (countStatus i) m rs s =
         Some (Count (k + length (filter (\<lambda>row. orEmpty (at row i) = s \<and> trim s \<noteq> []) rs)))"
  using assms(2)
proof (induction rs arbitrary: m k)
  case Nil
  then show ?case by simp
next
  case (Cons row rs)
  show ?case
  proof (cases "orEmpty (at row i) = s \<and> trim s \<noteq> []")
    case True
    with Cons.prems assms(1) have "countStatus i m row s = Some (Count (k + 1))"
      by (simp add: countStatus_key increment_own_key)
    with Cons.IH [of "countStatus i m row" "k + 1"] True show ?thesis by simp
  next
    case False
    with Cons.prems have "countStatus i m row s = Some (Count k)"
      by (auto simp: countStatus_key)
    with Cons.IH [of "countStatus i m row" k] False show ?thesis by auto
  qed
qed

lemma foldl_countStatus_fresh:
  assumes "s \<notin> set objectPrototypeKeys" and "m s = None"
  shows "foldl (countStatus i) m rs s =
         (let n = length (filter (\<lambda>row. orEmpty (at row i) = s \<and> trim s \<noteq> []) rs)
          in if n = 0 then None else Some (Count n))"
  using assms(2)
proof (induction rs arbitrary: m)
  case Nil
  then show ?case by simp
next
  case (Cons row rs)
  show ?case
  proof (cases "orEmpty (at row i) = s \<and> trim s \<noteq> []")
    case True
    with Cons.prems assms(1) have "countStatus i m row s = Some (Count 1)"
      by (simp add: countStatus_key increment_own_key)
    with foldl_countStatus_counted [OF assms(1), of "countStatus i m row" 1 i rs] True
    show ?thesis by (simp add: Let_def)
  next
    case False
    with Cons.prems have "countStatus i m row s = None"
      by (auto simp: countStatus_key)
    with Cons.IH [of "countStatus i m row"] False show ?thesis by (auto simp: Let_def)
  qed
qed

lemma index_columns_default:
  assumes "indexStoriesOf (Some rs) = Some x"
  shows
    "(\<forall>cell\<in>set (rs ! 0). \<not> includesStr (toLowerCase cell) ''test scenario'') \<longrightarrow>
       testScenarioIdx (indexColumns x) = 0"
    "(\<forall>cell\<in>set (rs ! 0). \<not> includesStr (toLowerCase cell) ''test execution'') \<longrightarrow>
       testExecutionIdx (indexColumns x) = 1"
    "(\<forall>cell\<in>set (rs ! 0). \<not> includesStr (toLowerCase cell) ''description'') \<longrightarrow>
       descIdx (indexColumns x) = 2"
    "(\<forall>cell\<in>set (rs ! 0). \<not> includesStr (toLowerCase cell) ''test story'') \<longrightarrow>
       testStoryIdx (indexColumns x) = 3"
    "(\<forall>cell\<in>set (rs ! 0). \<not> includesStr (toLowerCase cell) ''status'') \<longrightarrow>
       indexStatusIdx (indexColumns x) = 4"
  using assms
  by (auto simp: indexStoriesOf_def Let_def locateIndexColumns_def
      indexHeaderFrom_testScenarioIdx indexHeaderFrom_testExecutionIdx
      indexHeaderFrom_testStoryIdx indexHeaderFrom_descIdx indexHeaderFrom_indexStatusIdx
      split: if_splits)

lemma some_cell_conv: "list_ex (\<lambda>cell. cell \<noteq> []) = (\<lambda>row. \<exists>cell\<in>set row. cell \<noteq> [])"
  by (simp add: fun_eq_iff list_ex_iff)

lemma index_entries_rows:
  assumes "indexStoriesOf (Some rs) = Some x"
  shows "indexEntries x =
     map (indexEntryOf (indexColumns x)) (filter (\<lambda>row. \<exists>cell\<in>set row. cell \<noteq> []) (drop 1 rs))"
  using assms
  by (auto simp: indexStoriesOf_def Let_def bodyRows_def some_cell_conv split: if_splits)

lemma index_tally_counts:
  assumes "indexStoriesOf (Some rs) = Some x" and "s \<notin> set objectPrototypeKeys"
  shows "statusCountsMap x s =
     (let n = length (filter (\<lambda>e. status e = s \<and> trim s \<noteq> []) (indexEntries x))
      in if n = 0 then None else Some (Count n))"
proof -
  from assms(1) have x: "x = \<lparr>indexColumns = locateIndexColumns (rs ! 0),
      indexEntries = map (indexEntryOf (locateIndexColumns (rs ! 0))) (bodyRows rs),
      statusCountsMap =
        foldl (countStatus (indexStatusIdx (locateIndexColumns (rs ! 0)))) Map.empty (bodyRows rs)\<rparr>"
    by (auto simp: indexStoriesOf_def Let_def split: if_splits)
  have "length (filter (\<lambda>e. status e = s \<and> trim s \<noteq> []) (indexEntries x)) =
      length (filter (\<lambda>row. orEmpty (at row (indexStatusIdx (locateIndexColumns (rs ! 0)))) = s \<and>
                trim s \<noteq> []) (bodyRows rs))"
    by (simp add: x filter_map comp_def indexEntryOf_def)
  with foldl_countStatus_fresh [OF assms(2), of Map.empty
      "indexStatusIdx (locateIndexColumns (rs ! 0))" "bodyRows rs"]
  show ?thesis by (simp add: x)
qed

text \<open>
  Claim C8.  The columns fall back to their positions, the listing keeps the rows after
  row 0 that have a non-empty cell, and the tally counts the rows of a status, as the three
  lemmas above say, for every status that is not a key inherited from \<open>Object.prototype\<close>.
  For an inherited key the claim fails: \<open>statusCountsMap\<close> is a plain object, the first read
  of \<open>statusCountsMap['constructor']\<close> gives a function, and the entry becomes a string that
  is no count.  Below, the index sheet has two listed stories; the story of status
  \<open>constructor\<close> is not counted, the story of status \<open>Passed\<close> is.
\<close>

theorem index_tally_inherited_key_not_counted:
  "map_option (\<lambda>x. (map status (indexEntries x), statusCountsMap x ''constructor'',
                      statusCountsMap x ''Passed''))
     (indexStoriesOf (Some [[''Test Story'', ''Description'', ''Status''],
                            [''S-1'', ''checkout'', ''constructor''],
                            [''S-2'', ''refund'', ''Passed'']])) =
   Some ([''constructor'', ''Passed''], Some NotANumber, Some (Count 1))"
  by code_simp

section \<open>Properties of the global status counts\<close>

text \<open>
  The percentages of the summary divide a status count by the sum of the status counts.
  That sum is the number of Records, every listed status has a positive count, and so the
  sum is zero only when there is no status to show.  The percentages themselves are
  floating-point quotients rendered by \<open>toFixed\<close> and are not modelled.
\<close>

lemma length_filter_disj:
  "(\<And>x. \<not> (P x \<and> Q x)) \<Longrightarrow>
     length (filter (\<lambda>x. P x \<or> Q x) xs) = length (filter P xs) + length (filter Q xs)"
  by (induction xs) auto

lemma sum_counts_distinct:
  "distinct L \<Longrightarrow>
     sum_list (map (\<lambda>s. length (filter (\<lambda>r. f r = s) rs)) L) =
     length (filter (\<lambda>r. f r \<in> set L) rs)"
proof (induction L)
  case Nil
  then show ?case by simp
next
  case (Cons a L)
  then have "a \<notin> set L" and d: "distinct L" by simp_all
  then have "length (filter (\<lambda>r. f r = a \<or> f r \<in> set L) rs) =
      length (filter (\<lambda>r. f r = a) rs) + length (filter (\<lambda>r. f r \<in> set L) rs)"
    by (intro length_filter_disj) auto
  with Cons.IH [OF d] show ?case by simp
qed

lemma distinct_statusOrder: "distinct statusOrder"
  by (simp add: statusOrder_def)

lemma distinct_statusList: "distinct (statusList records)"
  by (auto simp: statusList_eq distinct_statusOrder distinct_firstSeen)

lemma set_statusList:
  "set (statusList records) = {s \<in> overallStatus ` set records. s \<noteq> []}"
  by (auto simp: statusList_eq set_firstSeen)

lemma foldl_add_sum_list: "foldl (+) (a::nat) xs = a + sum_list xs"
  by (induction xs arbitrary: a) simp_all

lemma statusTotal_counts_records:
  "statusTotal records = length (filter (\<lambda>r. overallStatus r \<noteq> []) records)"
proof -
  have "statusTotal records = sum_list (statusCounts records)"
    by (simp add: statusTotal_def foldl_add_sum_list)
  also have "\<dots> = length (filter (\<lambda>r. overallStatus r \<in> set (statusList records)) records)"
    by (simp add: statusCounts_def sum_counts_distinct [OF distinct_statusList])
  also have "\<dots> = length (filter (\<lambda>r. overallStatus r \<noteq> []) records)"
    by (intro arg_cong [where f = length] filter_cong) (auto simp: set_statusList)
  finally show ?thesis .
qed

lemma statusTotal_all_records:
  "\<forall>r\<in>set records. overallStatus r \<noteq> [] \<Longrightarrow> statusTotal records = length records"
  by (simp add: statusTotal_counts_records filter_id_conv)

lemma statusCounts_positive: "\<forall>n\<in>set (statusCounts records). 0 < n"
  by (auto simp: statusCounts_def set_statusList length_greater_0_conv filter_empty_conv)

section \<open>The examples of the specification\<close>

lemma two_sheets_example:
  "allData (fetchAllSheetsData
     [(''NR-100'', Some [[''Tester'', ''Overall Status''], [''Alice'', []]]),
      (''NR-101'', Some [[''Tester'', ''Overall Status'', ''Defect''],
                         [''Alice'', ''Failed'', ''BUG-1'']])]) =
   [\<lparr>tester = ''Alice'', jiraTicket = ''NR-100'', iteration = [],
      overallStatus = ''Not Started'', defect = [], comments = []\<rparr>,
    \<lparr>tester = ''Alice'', jiraTicket = ''NR-101'', iteration = [],
      overallStatus = ''Failed'', defect = ''BUG-1'', comments = []\<rparr>]"
  by code_simp

lemma two_sheets_example_grouped:
  "(case groupData Map.empty
      [\<lparr>tester = ''Alice'', jiraTicket = ''NR-100'', iteration = [],
         overallStatus = ''Not Started'', defect = [], comments = []\<rparr>,
       \<lparr>tester = ''Alice'', jiraTicket = ''NR-101'', iteration = [],
         overallStatus = ''Failed'', defect = ''BUG-1'', comments = []\<rparr>] of
      Inl e \<Rightarrow> None
    | Inr grouped \<Rightarrow>
        map_option (testerDataOf [''Failed'', ''Not Started''] ''Alice'') (grouped ''Alice'')) =
   Some \<lparr>testerName = ''Alice'', statusCountsOf = [Count 1, Count 1], total = 2,
          uniqueTicketCount = 2, ticketDetails = [(''NR-100'', 1), (''NR-101'', 1)]\<rparr>"
  by code_simp

lemma index_sheet_example:
  "map_option (\<lambda>x. (indexEntries x, statusCountsMap x ''Passed''))
     (indexStoriesOf (Some [[''Test Story'', ''Description'', ''Status''],
                            [''S-1'', ''desc'', ''Passed''], [[], [], []]])) =
   Some ([\<lparr>testScenario = ''S-1'', testExecution = ''desc'', testStory = ''S-1'',
            description = ''desc'', status = ''Passed''\<rparr>], Some (Count 1))"
  by code_simp

end
